(* ===== verification/Prelude.thy ===== *)
theory Prelude
  imports Main "HOL-Library.Word"
begin

text \<open>
  What every component of the development shares: the names of the machine types, the
  result-and-state combinators that stand for Rust's \<open>?\<close> operator, the saturating and
  wrapping integer operations of the Rust standard library that the service uses, and
  the collections of facts the component proofs draw on.
\<close>

named_theorems effect_defs \<open>unfolding rules for the result-and-state combinators\<close>
named_theorems keeps \<open>frame facts: what an operation leaves unchanged\<close>


section \<open>Types\<close>

text \<open>
  A \<open>uuid::Uuid\<close> is 128 bits.  A \<open>chrono::DateTime<Utc>\<close> and a \<open>std::time::Instant\<close>
  are both counted in microseconds (the resolution of the database's TIMESTAMPTZ).
  A Rust \<open>String\<close> is its sequence of UTF-8 bytes, so that \<open>length\<close> is \<open>str::len\<close>.
\<close>

type_synonym uuid = "128 word"
type_synonym u16 = "16 word"
type_synonym u32 = "32 word"
type_synonym u64 = "64 word"
type_synonym time = int

definition secs :: "int \<Rightarrow> time" where
  "secs n = n * 1000000"

definition days :: "int \<Rightarrow> time" where
  "days n = secs (n * 86400)"

text \<open>\<open>DateTime::timestamp\<close>: whole seconds since the epoch, rounded down.\<close>

definition timestamp :: "time \<Rightarrow> int" where
  "timestamp t = t div 1000000"

text \<open>Two's-complement wrap of a 64-bit signed integer.\<close>

definition i64 :: "int \<Rightarrow> int" where
  "i64 n = (n + 2 ^ 63) mod 2 ^ 64 - 2 ^ 63"

lemma i64_id: "- (2 ^ 63) \<le> n \<Longrightarrow> n < 2 ^ 63 \<Longrightarrow> i64 n = n"
  by (simp add: i64_def)

lemma i64_range: "- (2 ^ 63) \<le> i64 n \<and> i64 n < 2 ^ 63"
proof -
  have "0 \<le> (n + 2 ^ 63) mod 2 ^ 64 \<and> (n + 2 ^ 63) mod (2::int) ^ 64 < 2 ^ 64"
    by simp
  then show ?thesis by (simp add: i64_def)
qed

text \<open>\<open>u32::saturating_sub\<close>.\<close>

definition saturating_sub :: "'a::len word \<Rightarrow> 'a word \<Rightarrow> 'a word" where
  "saturating_sub a b = (if a < b then 0 else a - b)"

lemma unat_saturating_sub: "unat (saturating_sub a b) = unat a - unat b"
  by (simp add: saturating_sub_def unat_sub_if' word_less_nat_alt word_le_nat_alt)


lemma unat_Suc_less:
  assumes "a < (b :: 'a::len word)"
  shows "unat (a + 1) = Suc (unat a)"
proof -
  have "Suc (unat a) \<le> unat b" using assms by (simp add: word_less_nat_alt)
  also have "unat b < 2 ^ LENGTH('a)" by (rule unsigned_less)
  finally show ?thesis by (simp add: unat_word_ariths(1))
qed


text \<open>\<open>Instant::duration_since\<close> saturates at zero.\<close>

definition duration_since :: "time \<Rightarrow> time \<Rightarrow> time" where
  "duration_since now earlier = max 0 (now - earlier)"

lemma duration_since_less: "0 < w \<Longrightarrow> duration_since now start < w \<longleftrightarrow> now < start + w"
  by (auto simp: duration_since_def)


section \<open>Results and state\<close>

text \<open>
  A fallible operation returns \<open>Inl\<close> its error or \<open>Inr\<close> its value.  A fallible
  operation with effects is a function of the world that returns both a result and the
  world after it; \<open>bindE\<close> is Rust's \<open>?\<close>: an error ends the computation, in the
  world it happened in.
\<close>

type_synonym ('w, 'e, 'a) eff = "'w \<Rightarrow> ('e + 'a) \<times> 'w"

definition returnE :: "'a \<Rightarrow> ('w, 'e, 'a) eff" where
  "returnE x w = (Inr x, w)"

definition throwE :: "'e \<Rightarrow> ('w, 'e, 'a) eff" where
  "throwE e w = (Inl e, w)"

definition bindE :: "('w, 'e, 'a) eff \<Rightarrow> ('a \<Rightarrow> ('w, 'e, 'b) eff) \<Rightarrow> ('w, 'e, 'b) eff" where
  "bindE m k w = (case m w of (Inl e, w1) \<Rightarrow> (Inl e, w1) | (Inr x, w1) \<Rightarrow> k x w1)"

text \<open>A pure result (a call that has no effect) used inside an effectful operation.\<close>

definition liftE :: "'e + 'a \<Rightarrow> ('w, 'e, 'a) eff" where
  "liftE r w = (r, w)"

text \<open>A reading of the world that cannot fail.\<close>

definition readE :: "('w \<Rightarrow> 'a \<times> 'w) \<Rightarrow> ('w, 'e, 'a) eff" where
  "readE f w = (case f w of (x, w1) \<Rightarrow> (Inr x, w1))"

text \<open>\<open>Result::map_err\<close> and \<open>Option::ok_or\<close>.\<close>

definition map_err :: "('e \<Rightarrow> 'f) \<Rightarrow> 'e + 'a \<Rightarrow> 'f + 'a" where
  "map_err f r = (case r of Inl e \<Rightarrow> Inl (f e) | Inr x \<Rightarrow> Inr x)"

definition map_errE :: "('e \<Rightarrow> 'f) \<Rightarrow> ('w, 'e, 'a) eff \<Rightarrow> ('w, 'f, 'a) eff" where
  "map_errE f m w = (case m w of (r, w1) \<Rightarrow> (map_err f r, w1))"

definition ok_or :: "'e \<Rightarrow> 'a option \<Rightarrow> 'e + 'a" where
  "ok_or e x = (case x of None \<Rightarrow> Inl e | Some y \<Rightarrow> Inr y)"

text \<open>\<open>Result::and_then\<close> on pure results.\<close>

definition bindR :: "'e + 'a \<Rightarrow> ('a \<Rightarrow> 'e + 'b) \<Rightarrow> 'e + 'b" where
  "bindR r k = (case r of Inl e \<Rightarrow> Inl e | Inr x \<Rightarrow> k x)"

text \<open>\<open>Iterator::collect::<Result<Vec<_>, _>>\<close>: the first error, or all the values.\<close>

fun collectR :: "('a \<Rightarrow> 'e + 'b) \<Rightarrow> 'a list \<Rightarrow> 'e + 'b list" where
  "collectR f [] = Inr []"
| "collectR f (x # xs) =
     (case f x of Inl e \<Rightarrow> Inl e
      | Inr y \<Rightarrow> (case collectR f xs of Inl e \<Rightarrow> Inl e | Inr ys \<Rightarrow> Inr (y # ys)))"

text \<open>\<open>Option::map(f).transpose()\<close>.\<close>

definition transposeR :: "('a \<Rightarrow> 'e + 'b) \<Rightarrow> 'a option \<Rightarrow> 'e + 'b option" where
  "transposeR f x =
     (case x of None \<Rightarrow> Inr None
      | Some y \<Rightarrow> (case f y of Inl e \<Rightarrow> Inl e | Inr z \<Rightarrow> Inr (Some z)))"

lemmas [effect_defs] = returnE_def throwE_def liftE_def readE_def map_errE_def


subsection \<open>Facts about the combinators\<close>

lemma bindE_Inr: "m w = (Inr x, w1) \<Longrightarrow> bindE m k w = k x w1"
  by (simp add: bindE_def)

lemma bindE_Inl: "m w = (Inl e, w1) \<Longrightarrow> bindE m k w = (Inl e, w1)"
  by (simp add: bindE_def)

lemma bindE_eq_Inr:
  "bindE m k w = (Inr y, w') \<longleftrightarrow> (\<exists>x w1. m w = (Inr x, w1) \<and> k x w1 = (Inr y, w'))"
  by (auto simp: bindE_def split: prod.splits sum.splits)

lemma bindE_eq_Inl:
  "bindE m k w = (Inl e, w') \<longleftrightarrow>
     m w = (Inl e, w') \<or> (\<exists>x w1. m w = (Inr x, w1) \<and> k x w1 = (Inl e, w'))"
  by (auto simp: bindE_def split: prod.splits sum.splits)

lemma bindE_InrE:
  assumes "bindE m k w = (Inr y, w')"
  obtains x w1 where "m w = (Inr x, w1)" and "k x w1 = (Inr y, w')"
  using assms by (auto simp: bindE_eq_Inr)

lemma bindE_return [simp]: "bindE (returnE x) k = k x"
  by (rule ext) (simp add: bindE_def returnE_def)

lemma bindE_throw [simp]: "bindE (throwE e) k = throwE e"
  by (rule ext) (simp add: bindE_def throwE_def)

lemma bindE_liftE [simp]:
  "bindE (liftE r) k w = (case r of Inl e \<Rightarrow> (Inl e, w) | Inr x \<Rightarrow> k x w)"
  by (simp add: bindE_def liftE_def split: sum.splits)

lemma bindE_assoc: "bindE (bindE m k) h = bindE m (\<lambda>x. bindE (k x) h)"
  by (rule ext) (simp add: bindE_def split: prod.splits sum.splits)

lemma returnE_eq [simp]: "returnE x w = (r, w') \<longleftrightarrow> r = Inr x \<and> w' = w"
  by (auto simp: returnE_def)

lemma throwE_eq [simp]: "throwE e w = (r, w') \<longleftrightarrow> r = Inl e \<and> w' = w"
  by (auto simp: throwE_def)

lemma liftE_eq [simp]: "liftE r w = (s, w') \<longleftrightarrow> r = s \<and> w' = w"
  by (auto simp: liftE_def)

lemma map_err_simps [simp]:
  "map_err f (Inl e) = Inl (f e)"
  "map_err f (Inr x) = Inr x"
  by (simp_all add: map_err_def)

lemma map_err_eq_Inr [simp]: "map_err f r = Inr x \<longleftrightarrow> r = Inr x"
  by (cases r) simp_all

lemma map_err_eq_Inl: "map_err f r = Inl e \<longleftrightarrow> (\<exists>e'. r = Inl e' \<and> e = f e')"
  by (cases r) auto

lemma ok_or_simps [simp]:
  "ok_or e None = Inl e"
  "ok_or e (Some x) = Inr x"
  by (simp_all add: ok_or_def)

lemma ok_or_eq_Inr [simp]: "ok_or e x = Inr y \<longleftrightarrow> x = Some y"
  by (cases x) simp_all

lemma ok_or_eq_Inl [simp]: "ok_or e x = Inl e' \<longleftrightarrow> x = None \<and> e' = e"
  by (cases x) auto

lemma bindR_simps [simp]:
  "bindR (Inl e) k = Inl e"
  "bindR (Inr x) k = k x"
  by (simp_all add: bindR_def)

lemma bindR_eq_Inr: "bindR r k = Inr y \<longleftrightarrow> (\<exists>x. r = Inr x \<and> k x = Inr y)"
  by (cases r) simp_all

lemma collectR_map:
  assumes "\<And>x. x \<in> set xs \<Longrightarrow> f x = Inr (g x)"
  shows "collectR f xs = Inr (map g xs)"
  using assms by (induction xs) simp_all

lemma collectR_eq_Inr:
  "collectR f xs = Inr ys \<longleftrightarrow> list_all2 (\<lambda>x y. f x = Inr y) xs ys"
proof (induction xs arbitrary: ys)
  case Nil
  then show ?case by auto
next
  case (Cons x xs)
  show ?case
  proof (cases "f x")
    case (Inl e)
    then show ?thesis by (auto simp: list_all2_Cons1)
  next
    case (Inr y)
    show ?thesis
    proof (cases "collectR f xs")
      case (Inl e)
      with Inr show ?thesis by (auto simp: list_all2_Cons1 Cons.IH [symmetric])
    next
      case (Inr zs)
      with \<open>f x = Inr y\<close> show ?thesis
        by (auto simp: list_all2_Cons1 Cons.IH [symmetric])
    qed
  qed
qed

lemma collectR_error:
  "collectR f xs = Inl e \<Longrightarrow> \<exists>x \<in> set xs. f x = Inl e"
  by (induction xs) (auto split: sum.splits)


section \<open>Lists\<close>

text \<open>\<open>Iterator::find\<close> is \<open>List.find\<close>; these are the facts the proofs use of it.\<close>

lemma find_SomeD: "find P xs = Some x \<Longrightarrow> x \<in> set xs \<and> P x"
  by (induction xs) (auto split: if_splits)

lemma find_eq_None: "find P xs = None \<longleftrightarrow> (\<forall>x \<in> set xs. \<not> P x)"
  by (induction xs) auto

text \<open>The first matching element of a list replaced by its update, as \<open>iter_mut().find\<close>.\<close>

fun update_first :: "('a \<Rightarrow> bool) \<Rightarrow> ('a \<Rightarrow> 'a) \<Rightarrow> 'a list \<Rightarrow> 'a list" where
  "update_first P f [] = []"
| "update_first P f (x # xs) = (if P x then f x # xs else x # update_first P f xs)"

lemma length_update_first [simp]: "length (update_first P f xs) = length xs"
  by (induction xs) auto

lemma map_update_first:
  "(\<And>x. g (f x) = g x) \<Longrightarrow> map g (update_first P f xs) = map g xs"
  by (induction xs) auto

lemma set_update_first:
  "y \<in> set (update_first P f xs) \<Longrightarrow> y \<in> set xs \<or> (\<exists>x \<in> set xs. P x \<and> y = f x)"
  by (induction xs) (auto split: if_splits)

lemma update_first_eq_map:
  assumes "distinct (map g xs)"
  shows "update_first (\<lambda>x. g x = k) f xs = map (\<lambda>x. if g x = k then f x else x) xs"
  using assms
proof (induction xs)
  case Nil
  then show ?case by simp
next
  case (Cons x xs)
  show ?case
  proof (cases "g x = k")
    case True
    with Cons.prems have "map (\<lambda>x. if g x = k then f x else x) xs = xs"
      by (intro map_idI) (auto simp: rev_image_eqI)
    with True show ?thesis by simp
  next
    case False
    with Cons show ?thesis by simp
  qed
qed

lemma find_distinct:
  assumes "distinct (map g xs)" and "x \<in> set xs" and "g x = k"
  shows "find (\<lambda>y. g y = k) xs = Some x"
  using assms by (induction xs) (auto simp: rev_image_eqI)

lemma filter_length_le_1:
  assumes "distinct (map g xs)"
  shows "length (filter (\<lambda>x. g x = k) xs) \<le> 1"
  using assms
proof (induction xs)
  case Nil
  then show ?case by simp
next
  case (Cons x xs)
  show ?case
  proof (cases "g x = k")
    case True
    with Cons.prems have "filter (\<lambda>y. g y = k) xs = []"
      by (auto simp: filter_empty_conv rev_image_eqI)
    with True show ?thesis by simp
  next
    case False
    with Cons show ?thesis by simp
  qed
qed


section \<open>Hash maps\<close>

text \<open>
  A \<open>HashMap<K, V>\<close> is a list of its entries, in the order an iteration visits them, with
  distinct keys (\<open>hm_ok\<close>); \<open>map_of\<close> is \<open>get\<close>.  Nothing proved of the maps depends on
  that order.
\<close>

type_synonym ('k, 'v) hash_map = "('k \<times> 'v) list"

definition hm_ok :: "('k, 'v) hash_map \<Rightarrow> bool" where
  "hm_ok m \<longleftrightarrow> distinct (map fst m)"

definition hm_contains :: "'k \<Rightarrow> ('k, 'v) hash_map \<Rightarrow> bool" where
  "hm_contains k m \<longleftrightarrow> k \<in> fst ` set m"

definition hm_remove :: "'k \<Rightarrow> ('k, 'v) hash_map \<Rightarrow> ('k, 'v) hash_map" where
  "hm_remove k m = filter (\<lambda>(k', v). k' \<noteq> k) m"

definition hm_retain :: "('k \<Rightarrow> 'v \<Rightarrow> bool) \<Rightarrow> ('k, 'v) hash_map \<Rightarrow> ('k, 'v) hash_map" where
  "hm_retain P m = filter (\<lambda>(k, v). P k v) m"

definition hm_modify :: "'k \<Rightarrow> ('v \<Rightarrow> 'v) \<Rightarrow> ('k, 'v) hash_map \<Rightarrow> ('k, 'v) hash_map" where
  "hm_modify k f m = map (\<lambda>(k', v). (k', if k' = k then f v else v)) m"

definition hm_or_insert :: "'k \<Rightarrow> 'v \<Rightarrow> ('k, 'v) hash_map \<Rightarrow> ('k, 'v) hash_map" where
  "hm_or_insert k v m = (if hm_contains k m then m else m @ [(k, v)])"

definition hm_insert :: "'k \<Rightarrow> 'v \<Rightarrow> ('k, 'v) hash_map \<Rightarrow> ('k, 'v) hash_map" where
  "hm_insert k v m = hm_modify k (\<lambda>_. v) (hm_or_insert k v m)"

lemma hm_contains_iff: "hm_contains k m \<longleftrightarrow> map_of m k \<noteq> None"
  by (simp add: hm_contains_def map_of_eq_None_iff)

lemma hm_modify_keys [simp]: "map fst (hm_modify k f m) = map fst m"
  by (induction m) (auto simp: hm_modify_def)

lemma hm_ok_ops:
  assumes "hm_ok m"
  shows "hm_ok (hm_remove k m)" and "hm_ok (hm_retain P m)" and "hm_ok (hm_modify k f m)"
    and "hm_ok (hm_or_insert k v m)" and "hm_ok (hm_insert k v m)"
proof -
  have "distinct (map fst (filter Q m))" for Q
    using assms by (simp add: hm_ok_def distinct_map_filter)
  then show "hm_ok (hm_remove k m)" "hm_ok (hm_retain P m)"
    by (simp_all add: hm_ok_def hm_remove_def hm_retain_def)
  show "hm_ok (hm_modify k f m)" using assms by (simp add: hm_ok_def)
  show "hm_ok (hm_or_insert k v m)" "hm_ok (hm_insert k v m)"
    using assms by (auto simp: hm_ok_def hm_insert_def hm_or_insert_def hm_contains_def)
qed

lemma map_of_hm_remove: "map_of (hm_remove k m) k' = (if k' = k then None else map_of m k')"
  by (induction m) (auto simp: hm_remove_def)

lemma map_of_hm_retain:
  "hm_ok m \<Longrightarrow> map_of (hm_retain P m) k =
     (case map_of m k of None \<Rightarrow> None | Some v \<Rightarrow> if P k v then Some v else None)"
proof (induction m)
  case (Cons x m)
  then show ?case
    by (cases x) (auto simp: hm_ok_def hm_retain_def map_of_eq_None_iff rev_image_eqI
                       split: option.splits dest: map_of_SomeD)
qed (simp add: hm_retain_def)

lemma map_of_hm_modify:
  "map_of (hm_modify k f m) k' = (if k' = k then map_option f (map_of m k) else map_of m k')"
  by (induction m) (auto simp: hm_modify_def)

lemma map_of_hm_or_insert:
  "map_of (hm_or_insert k v m) k' =
     (if k' = k \<and> map_of m k = None then Some v else map_of m k')"
  by (auto simp: hm_or_insert_def hm_contains_iff map_add_def split: option.splits)

lemma map_of_hm_insert: "map_of (hm_insert k v m) k' = (if k' = k then Some v else map_of m k')"
  by (auto simp: hm_insert_def map_of_hm_modify map_of_hm_or_insert)

lemmas map_of_hm =
  map_of_hm_remove map_of_hm_retain map_of_hm_modify map_of_hm_or_insert map_of_hm_insert

lemma hm_lengths:
  "length (hm_remove k m) \<le> length m"
  "length (hm_retain P m) \<le> length m"
  "length (hm_modify k f m) = length m"
  "length (hm_or_insert k v m) = (if hm_contains k m then length m else Suc (length m))"
  "length (hm_insert k v m) = (if hm_contains k m then length m else Suc (length m))"
  by (simp_all add: hm_remove_def hm_retain_def hm_modify_def hm_or_insert_def hm_insert_def)

lemma hm_remove_length_less: "map_of m k \<noteq> None \<Longrightarrow> length (hm_remove k m) < length m"
  by (auto simp: hm_remove_def intro!: length_filter_less dest: map_of_SomeD)

end
