(* ===== verification/Rust_Std.thy ===== *)
theory Rust_Std
  imports Prelude
begin

text \<open>
  The parts of the Rust standard library the service computes with: \<open>str::split\<close>,
  \<open>split_once\<close>, \<open>strip_prefix\<close>, \<open>trim\<close>, \<open>to_lowercase\<close>, integer parsing and display,
  and the parser and printer of \<open>std::net::IpAddr\<close>.  Strings are UTF-8 byte sequences;
  every separator the service splits at is an ASCII byte, which never occurs inside a
  multi-byte character.
\<close>

section \<open>Strings\<close>

text \<open>\<open>str::split(c)\<close>: the pieces between the separators, at least one.\<close>

fun split_char :: "char \<Rightarrow> string \<Rightarrow> string list" where
  "split_char c [] = [[]]"
| "split_char c (x # xs) =
     (if x = c then [] # split_char c xs
      else (case split_char c xs of [] \<Rightarrow> [[x]] | p # ps \<Rightarrow> (x # p) # ps))"

text \<open>\<open>str::split_once(c)\<close>: at the first separator.\<close>

fun split_once :: "char \<Rightarrow> string \<Rightarrow> (string \<times> string) option" where
  "split_once c [] = None"
| "split_once c (x # xs) =
     (if x = c then Some ([], xs)
      else map_option (\<lambda>(a, b). (x # a, b)) (split_once c xs))"

text \<open>\<open>str::strip_prefix\<close>.\<close>

fun strip_prefix :: "string \<Rightarrow> string \<Rightarrow> string option" where
  "strip_prefix [] s = Some s"
| "strip_prefix (p # ps) [] = None"
| "strip_prefix (p # ps) (x # xs) = (if p = x then strip_prefix ps xs else None)"

text \<open>
  \<open>str::trim\<close> removes the characters with the Unicode property White\_Space: the list
  of their UTF-8 encodings.
\<close>

definition white_space :: "string list" where
  "white_space =
     [[CHR 0x09], [CHR 0x0A], [CHR 0x0B], [CHR 0x0C], [CHR 0x0D], [CHR 0x20],
      [CHR 0xC2, CHR 0x85], [CHR 0xC2, CHR 0xA0], [CHR 0xE1, CHR 0x9A, CHR 0x80],
      [CHR 0xE2, CHR 0x80, CHR 0x80], [CHR 0xE2, CHR 0x80, CHR 0x81],
      [CHR 0xE2, CHR 0x80, CHR 0x82], [CHR 0xE2, CHR 0x80, CHR 0x83],
      [CHR 0xE2, CHR 0x80, CHR 0x84], [CHR 0xE2, CHR 0x80, CHR 0x85],
      [CHR 0xE2, CHR 0x80, CHR 0x86], [CHR 0xE2, CHR 0x80, CHR 0x87],
      [CHR 0xE2, CHR 0x80, CHR 0x88], [CHR 0xE2, CHR 0x80, CHR 0x89],
      [CHR 0xE2, CHR 0x80, CHR 0x8A], [CHR 0xE2, CHR 0x80, CHR 0xA8],
      [CHR 0xE2, CHR 0x80, CHR 0xA9], [CHR 0xE2, CHR 0x80, CHR 0xAF],
      [CHR 0xE2, CHR 0x81, CHR 0x9F], [CHR 0xE3, CHR 0x80, CHR 0x80]]"

fun strip_any :: "string list \<Rightarrow> string \<Rightarrow> string option" where
  "strip_any [] s = None"
| "strip_any (p # ps) s =
     (if p \<noteq> [] \<and> take (length p) s = p then Some (drop (length p) s) else strip_any ps s)"

lemma strip_any_length: "strip_any ps s = Some t \<Longrightarrow> length t < length s"
proof (induction ps)
  case Nil
  then show ?case by simp
next
  case (Cons p ps)
  show ?case
  proof (cases "p \<noteq> [] \<and> take (length p) s = p")
    case True
    then have "s \<noteq> []" by auto
    with True Cons.prems show ?thesis by (auto simp: diff_less)
  next
    case False
    with Cons show ?thesis by (simp split: if_splits)
  qed
qed

function strip_all :: "string list \<Rightarrow> string \<Rightarrow> string" where
  "strip_all ps s = (case strip_any ps s of None \<Rightarrow> s | Some t \<Rightarrow> strip_all ps t)"
  by pat_completeness auto
termination
  by (relation "measure (\<lambda>(ps, s). length s)") (auto simp: strip_any_length)

declare strip_all.simps [simp del]

definition trim_start :: "string \<Rightarrow> string" where
  "trim_start s = strip_all white_space s"

definition trim_end :: "string \<Rightarrow> string" where
  "trim_end s = rev (strip_all (map rev white_space) (rev s))"

definition trim :: "string \<Rightarrow> string" where
  "trim s = trim_end (trim_start s)"

text \<open>
  \<open>to_lowercase\<close> and \<open>eq_ignore_ascii_case\<close>.  Of the characters outside ASCII only the
  Kelvin sign (U+212A) has a lower-case form in ASCII; the other ones are left as they
  are, which no comparison with an ASCII literal can observe.
\<close>

definition ascii_lower :: "char \<Rightarrow> char" where
  "ascii_lower c = (if 65 \<le> (of_char c :: nat) \<and> (of_char c :: nat) \<le> 90
                    then char_of ((of_char c :: nat) + 32) else c)"

fun to_lowercase :: "string \<Rightarrow> string" where
  "to_lowercase (a # b # c # s) =
     (if [a, b, c] = [CHR 0xE2, CHR 0x84, CHR 0xAA] then CHR ''k'' # to_lowercase s
      else ascii_lower a # to_lowercase (b # c # s))"
| "to_lowercase (a # s) = ascii_lower a # to_lowercase s"
| "to_lowercase [] = []"

definition eq_ignore_ascii_case :: "string \<Rightarrow> string \<Rightarrow> bool" where
  "eq_ignore_ascii_case s t \<longleftrightarrow> map ascii_lower s = map ascii_lower t"

text \<open>\<open>s.chars().count()\<close>: the bytes that are not UTF-8 continuation bytes.\<close>

definition char_count :: "string \<Rightarrow> nat" where
  "char_count s = length (filter (\<lambda>c. \<not> (128 \<le> (of_char c :: nat) \<and> (of_char c :: nat) < 192)) s)"

lemma char_count_le_length: "char_count s \<le> length s"
  by (simp add: char_count_def)


section \<open>Integers as text\<close>

definition digit_char :: "nat \<Rightarrow> char" where
  "digit_char d = char_of (if d < 10 then 48 + d else 87 + d)"

text \<open>\<open>char::to_digit(radix)\<close>.\<close>

definition to_digit :: "nat \<Rightarrow> char \<Rightarrow> nat option" where
  "to_digit radix c =
     (let n = (of_char c :: nat);
          d = (if 48 \<le> n \<and> n \<le> 57 then Some (n - 48)
               else if 97 \<le> n \<and> n \<le> 122 then Some (n - 87)
               else if 65 \<le> n \<and> n \<le> 90 then Some (n - 55) else None)
      in case d of None \<Rightarrow> None | Some k \<Rightarrow> if k < radix then Some k else None)"

fun show_radix :: "nat \<Rightarrow> nat \<Rightarrow> string" where
  "show_radix r n =
     (if r \<le> 1 \<or> n < r then [digit_char n] else show_radix r (n div r) @ [digit_char (n mod r)])"

declare show_radix.simps [simp del]

definition show_nat :: "nat \<Rightarrow> string" where
  "show_nat n = show_radix 10 n"

definition show_int :: "int \<Rightarrow> string" where
  "show_int i = (if i < 0 then CHR ''-'' # show_nat (nat (- i)) else show_nat (nat i))"

fun digits_val :: "nat \<Rightarrow> nat \<Rightarrow> string \<Rightarrow> nat option" where
  "digits_val r acc [] = Some acc"
| "digits_val r acc (c # cs) =
     (case to_digit r c of None \<Rightarrow> None | Some d \<Rightarrow> digits_val r (acc * r + d) cs)"

text \<open>\<open><uN as FromStr>::from_str\<close>: an optional plus sign, then at least one digit, and
  an error on overflow; \<open>parse_i64\<close> takes a minus sign too.\<close>

definition parse_unsigned :: "nat \<Rightarrow> string \<Rightarrow> nat option" where
  "parse_unsigned bound s =
     (let t = (case s of [] \<Rightarrow> [] | c # cs \<Rightarrow> if c = CHR ''+'' then cs else s)
      in if t = [] then None
         else case digits_val 10 0 t of None \<Rightarrow> None
              | Some n \<Rightarrow> if n \<le> bound then Some n else None)"

definition parse_u16 :: "string \<Rightarrow> u16 option" where
  "parse_u16 s = map_option of_nat (parse_unsigned 65535 s)"

definition parse_u32 :: "string \<Rightarrow> u32 option" where
  "parse_u32 s = map_option of_nat (parse_unsigned 4294967295 s)"

definition parse_u64 :: "string \<Rightarrow> u64 option" where
  "parse_u64 s = map_option of_nat (parse_unsigned 18446744073709551615 s)"

definition parse_i64 :: "string \<Rightarrow> int option" where
  "parse_i64 s =
     (case s of
        c # cs \<Rightarrow>
          if c = CHR ''-'' then
            (if cs = [] then None
             else case digits_val 10 0 cs of None \<Rightarrow> None
                  | Some n \<Rightarrow> if n \<le> 9223372036854775808 then Some (- int n) else None)
          else map_option int (parse_unsigned 9223372036854775807 s)
      | [] \<Rightarrow> None)"


section \<open>IP addresses\<close>

text \<open>\<open>std::net::IpAddr\<close>: four octets, or eight 16-bit segments.\<close>

datatype ip_addr =
    V4 "8 word" "8 word" "8 word" "8 word"
  | V6 u16 u16 u16 u16 u16 u16 u16 u16

fun is_loopback :: "ip_addr \<Rightarrow> bool" where
  "is_loopback (V4 a b c d) = (a = 127)"
| "is_loopback (V6 a b c d e f g h) =
     ([a, b, c, d, e, f, g, h] = [0, 0, 0, 0, 0, 0, 0, 1])"

text \<open>
  The parser of the standard library: a reader returns what it read and the rest of the
  input, or nothing, in which case its caller goes on from where the reader started.
\<close>

type_synonym 'a reader = "string \<Rightarrow> ('a \<times> string) option"

fun read_digits :: "nat \<Rightarrow> nat \<Rightarrow> nat \<Rightarrow> nat \<Rightarrow> nat \<Rightarrow> (nat \<times> nat) reader" where
  "read_digits radix bound max_digits acc count [] = Some ((acc, count), [])"
| "read_digits radix bound max_digits acc count (c # cs) =
     (case to_digit radix c of
        None \<Rightarrow> Some ((acc, count), c # cs)
      | Some d \<Rightarrow>
          if acc * radix + d > bound \<or> Suc count > max_digits then None
          else read_digits radix bound max_digits (acc * radix + d) (Suc count) cs)"

definition read_number :: "nat \<Rightarrow> nat \<Rightarrow> nat \<Rightarrow> bool \<Rightarrow> nat reader" where
  "read_number radix bound max_digits allow_zero_prefix s =
     (case read_digits radix bound max_digits 0 0 s of
        None \<Rightarrow> None
      | Some ((n, count), rest) \<Rightarrow>
          if count = 0 then None
          else if \<not> allow_zero_prefix \<and> take 1 s = ''0'' \<and> count > 1 then None
          else Some (n, rest))"

definition read_given_char :: "char \<Rightarrow> unit reader" where
  "read_given_char c s = (case s of x # xs \<Rightarrow> if x = c then Some ((), xs) else None | [] \<Rightarrow> None)"

definition read_separator :: "char \<Rightarrow> nat \<Rightarrow> 'a reader \<Rightarrow> 'a reader" where
  "read_separator sep i inner s =
     (if i > 0 then (case read_given_char sep s of None \<Rightarrow> None | Some (_, t) \<Rightarrow> inner t)
      else inner s)"

definition read_octet :: "nat \<Rightarrow> nat reader" where
  "read_octet i = read_separator CHR ''.'' i (read_number 10 255 3 False)"

definition read_ipv4_addr :: "(nat \<times> nat \<times> nat \<times> nat) reader" where
  "read_ipv4_addr s =
     (case read_octet 0 s of None \<Rightarrow> None
      | Some (a, s1) \<Rightarrow> (case read_octet 1 s1 of None \<Rightarrow> None
      | Some (b, s2) \<Rightarrow> (case read_octet 2 s2 of None \<Rightarrow> None
      | Some (c, s3) \<Rightarrow> (case read_octet 3 s3 of None \<Rightarrow> None
      | Some (d, s4) \<Rightarrow> Some ((a, b, c, d), s4)))))"

text \<open>
  \<open>read_groups\<close> reads up to \<open>left\<close> more groups after the \<open>i\<close> already read: the
  groups, whether they end with an embedded IPv4 address, and the rest of the input.
\<close>

fun read_groups :: "nat \<Rightarrow> nat \<Rightarrow> string \<Rightarrow> nat list \<times> bool \<times> string" where
  "read_groups 0 i s = ([], False, s)"
| "read_groups (Suc left) i s =
     (case (if 0 < left then read_separator CHR '':'' i read_ipv4_addr s else None) of
        Some ((a, b, c, d), t) \<Rightarrow> ([a * 256 + b, c * 256 + d], True, t)
      | None \<Rightarrow>
          (case read_separator CHR '':'' i (read_number 16 65535 4 True) s of
             None \<Rightarrow> ([], False, s)
           | Some (g, t) \<Rightarrow>
               (case read_groups left (Suc i) t of (gs, v4, u) \<Rightarrow> (g # gs, v4, u))))"

fun of_segments :: "nat list \<Rightarrow> ip_addr option" where
  "of_segments [a, b, c, d, e, f, g, h] =
     Some (V6 (of_nat a) (of_nat b) (of_nat c) (of_nat d)
              (of_nat e) (of_nat f) (of_nat g) (of_nat h))"
| "of_segments _ = None"

definition read_ipv6_addr :: "ip_addr reader" where
  "read_ipv6_addr s =
     (case read_groups 8 0 s of
        (head, head_ipv4, s1) \<Rightarrow>
          if length head = 8 then map_option (\<lambda>a. (a, s1)) (of_segments head)
          else if head_ipv4 then None
          else (case read_given_char CHR '':'' s1 of None \<Rightarrow> None
                | Some (_, s2) \<Rightarrow> (case read_given_char CHR '':'' s2 of None \<Rightarrow> None
                | Some (_, s3) \<Rightarrow>
                    (case read_groups (8 - (length head + 1)) 0 s3 of
                       (tail, _, s4) \<Rightarrow>
                         map_option (\<lambda>a. (a, s4))
                           (of_segments
                             (head @ replicate (8 - length head - length tail) 0 @ tail))))))"

text \<open>\<open><IpAddr as FromStr>::from_str\<close>: the whole input must be read.\<close>

definition parse_ip :: "string \<Rightarrow> ip_addr option" where
  "parse_ip s =
     (case (case read_ipv4_addr s of
              Some ((a, b, c, d), t) \<Rightarrow> Some (V4 (of_nat a) (of_nat b) (of_nat c) (of_nat d), t)
            | None \<Rightarrow> read_ipv6_addr s) of
        None \<Rightarrow> None
      | Some (ip, t) \<Rightarrow> if t = [] then Some ip else None)"

text \<open>\<open>Display\<close> of an address: dotted octets, or segments in hexadecimal with the longest
  run of two or more zeros written as \<open>::\<close>.\<close>

definition show_v4 :: "8 word \<Rightarrow> 8 word \<Rightarrow> 8 word \<Rightarrow> 8 word \<Rightarrow> string" where
  "show_v4 a b c d =
     show_nat (unat a) @ ''.'' @ show_nat (unat b) @ ''.'' @
     show_nat (unat c) @ ''.'' @ show_nat (unat d)"

fun zero_span :: "nat \<Rightarrow> nat \<times> nat \<Rightarrow> nat \<times> nat \<Rightarrow> u16 list \<Rightarrow> nat \<times> nat" where
  "zero_span i longest current [] = longest"
| "zero_span i (ls, ll) (cs, cl) (x # xs) =
     (if x = 0 then
        (let cs' = (if cl = 0 then i else cs); cl' = Suc cl
         in zero_span (Suc i) (if ll < cl' then (cs', cl') else (ls, ll)) (cs', cl') xs)
      else zero_span (Suc i) (ls, ll) (0, 0) xs)"

fun join :: "string \<Rightarrow> string list \<Rightarrow> string" where
  "join sep [] = []"
| "join sep [x] = x"
| "join sep (x # y # xs) = x @ sep @ join sep (y # xs)"

definition show_segments :: "u16 list \<Rightarrow> string" where
  "show_segments xs = join '':'' (map (\<lambda>x. show_radix 16 (unat x)) xs)"

fun show_ip :: "ip_addr \<Rightarrow> string" where
  "show_ip (V4 a b c d) = show_v4 a b c d"
| "show_ip (V6 a b c d e f g h) =
     (let xs = [a, b, c, d, e, f, g, h]; (start, len) = zero_span 0 (0, 0) (0, 0) xs
      in if take 6 xs = [0, 0, 0, 0, 0, 0xFFFF] then
           ''::ffff:'' @ show_v4 (ucast (drop_bit 8 g)) (ucast g) (ucast (drop_bit 8 h)) (ucast h)
         else if 1 < len then
           show_segments (take start xs) @ ''::'' @ show_segments (drop (start + len) xs)
         else show_segments xs)"


section \<open>Facts\<close>

lemma split_char_neq_Nil [simp]: "split_char c s \<noteq> []"
  by (induction s) (auto split: list.splits)

lemma split_char_append_sep: "split_char c (s @ c # t) = split_char c s @ split_char c t"
  by (induction s) (auto split: list.splits)

lemma split_char_no_sep: "c \<notin> set s \<Longrightarrow> split_char c s = [s]"
  by (induction s) (auto split: list.splits)

lemma split_char_pieces: "p \<in> set (split_char c s) \<Longrightarrow> c \<notin> set p"
  by (induction s arbitrary: p) (auto split: list.splits if_splits)

text \<open>Joining the pieces of a split gives the string back.\<close>

lemma join_split_char: "join [c] (split_char c s) = s"
proof (induction s)
  case Nil
  then show ?case by simp
next
  case (Cons x s)
  obtain p ps where s: "split_char c s = p # ps"
    by (cases "split_char c s") auto
  with Cons.IH show ?case by (cases ps) auto
qed

lemma strip_prefix_append [simp]: "strip_prefix p (p @ s) = Some s"
  by (induction p) simp_all

lemma strip_prefix_Some: "strip_prefix p s = Some t \<longleftrightarrow> s = p @ t"
  by (induction p s rule: strip_prefix.induct) auto

lemma strip_all_no_prefix: "strip_any ps (strip_all ps s) = None"
proof (induction ps s rule: strip_all.induct)
  case (1 ps s)
  then show ?case
    by (cases "strip_any ps s") (simp_all add: strip_all.simps [of ps s])
qed

lemma strip_all_id: "strip_any ps s = None \<Longrightarrow> strip_all ps s = s"
  by (simp add: strip_all.simps [of ps s])

lemma strip_any_Some_append:
  "strip_any ps s = Some t \<Longrightarrow> strip_any ps (s @ u) \<noteq> None"
proof (induction ps)
  case (Cons p ps)
  show ?case
  proof (cases "p \<noteq> [] \<and> take (length p) s = p")
    case True
    then have "take (length p) (s @ u) = p" by (metis append.assoc append_eq_conv_conj append_take_drop_id)
    with True show ?thesis by simp
  next
    case False
    with Cons have "strip_any ps (s @ u) \<noteq> None" by (auto split: if_splits)
    then show ?thesis by auto
  qed
qed simp

lemma strip_any_None_prefix: "strip_any ps (s @ u) = None \<Longrightarrow> strip_any ps s = None"
  using strip_any_Some_append by (cases "strip_any ps s") blast+

lemma strip_any_suffix: "strip_any ps s = Some t \<Longrightarrow> \<exists>u. s = u @ t"
  by (induction ps) (auto split: if_splits intro: append_take_drop_id [symmetric] exI [where x = "take _ s"])

lemma strip_all_suffix: "\<exists>u. s = u @ strip_all ps s"
proof (induction ps s rule: strip_all.induct)
  case (1 ps s)
  show ?case
  proof (cases "strip_any ps s")
    case None
    then show ?thesis by (simp add: strip_all_id)
  next
    case (Some t)
    with 1 obtain u where "t = u @ strip_all ps t" by blast
    moreover from Some obtain v where "s = v @ t" using strip_any_suffix by blast
    ultimately have "s = (v @ u) @ strip_all ps t" by simp
    with Some show ?thesis by (metis option.simps(5) strip_all.simps)
  qed
qed

text \<open>Trimming twice is trimming once.\<close>

lemma trim_idem: "trim (trim s) = trim s"
proof -
  let ?a = "trim_start s" and ?r = "map rev white_space"
  obtain u where "rev ?a = u @ strip_all ?r (rev ?a)"
    using strip_all_suffix by blast
  then have a: "?a = trim_end ?a @ rev u"
    by (metis rev_append rev_rev_ident trim_end_def)
  have "strip_any white_space ?a = None"
    by (simp add: trim_start_def strip_all_no_prefix)
  with a have "strip_any white_space (trim_end ?a) = None"
    by (metis strip_any_None_prefix)
  then have "trim_start (trim s) = trim s"
    by (simp add: trim_def trim_start_def strip_all_id)
  moreover have "trim_end (trim_end ?a) = trim_end ?a"
    by (simp add: trim_end_def strip_all_id strip_all_no_prefix)
  ultimately show ?thesis by (simp add: trim_def)
qed

lemma trim_length: "length (trim s) \<le> length s"
proof -
  have "length (strip_all ps t) \<le> length t" for ps t
    using strip_all_suffix [of t ps] by (metis le_add2 length_append)
  then show ?thesis
    by (metis dual_order.trans length_rev trim_def trim_end_def trim_start_def)
qed

lemma to_digit_digit_char: "d < r \<Longrightarrow> r \<le> 16 \<Longrightarrow> to_digit r (digit_char d) = Some d"
  by (simp add: to_digit_def digit_char_def Let_def of_char_of)

lemma digits_val_append:
  "digits_val r acc (s @ t) =
     (case digits_val r acc s of None \<Rightarrow> None | Some n \<Rightarrow> digits_val r n t)"
  by (induction s arbitrary: acc) (auto split: option.splits)

lemma digits_val_show_radix:
  "1 < r \<Longrightarrow> r \<le> 16 \<Longrightarrow> \<exists>p. digits_val r acc (show_radix r n) = Some (acc * p + n)"
proof (induction r n arbitrary: acc rule: show_radix.induct)
  case (1 r n)
  show ?case
  proof (cases "n < r")
    case True
    then have "digits_val r acc (show_radix r n) = Some (acc * r + n)"
      using 1 by (simp add: show_radix.simps [of r n] to_digit_digit_char)
    then show ?thesis by blast
  next
    case False
    with 1 obtain p where "digits_val r acc (show_radix r (n div r)) = Some (acc * p + n div r)"
      by (metis not_le)
    with False 1 have "digits_val r acc (show_radix r n) = Some ((acc * p + n div r) * r + n mod r)"
      by (simp add: show_radix.simps [of r n] digits_val_append to_digit_digit_char)
    also have "(acc * p + n div r) * r + n mod r = acc * (p * r) + n"
      by (simp add: algebra_simps)
    finally show ?thesis by blast
  qed
qed

text \<open>Printing a number and parsing it back.\<close>

lemma digits_val_show_nat: "digits_val 10 0 (show_nat n) = Some n"
  using digits_val_show_radix [of 10 0 n] by (auto simp: show_nat_def)

lemma show_nat_inj: "show_nat m = show_nat n \<longleftrightarrow> m = n"
  by (metis digits_val_show_nat option.inject)

end
