(* ===== verification/Shared_Domain.thy ===== *)
theory Shared_Domain
  imports Rust_Std
begin

text \<open>
  The value objects and domain events of \<open>crates/shared/src/domain\<close>: the enumerations
  with their database text, \<open>Email\<close>, \<open>HashedPassword\<close>, the two token newtypes and the
  events that cross module boundaries.  \<open>text_enum\<close> is the contract between an
  enumeration and the text it is stored as; every row decoder of the development relies
  on it.
\<close>

section \<open>The stored-text contract\<close>

locale text_enum =
  fixes as_str :: "'a \<Rightarrow> string"
    and try_from :: "string \<Rightarrow> string + 'a"
  assumes try_from_as_str: "try_from (as_str x) = Inr x"
    and as_str_try_from: "try_from s = Inr x \<Longrightarrow> as_str x = s"
begin

lemma as_str_inj: "as_str x = as_str y \<longleftrightarrow> x = y"
  by (metis Inr_inject try_from_as_str)

lemma try_from_iff: "try_from s = Inr x \<longleftrightarrow> s = as_str x"
  using try_from_as_str as_str_try_from by blast

lemma try_from_error_iff: "(\<exists>e. try_from s = Inl e) \<longleftrightarrow> s \<notin> range as_str"
  by (cases "try_from s") (auto simp: try_from_as_str dest: as_str_try_from)

end


section \<open>Value objects\<close>

datatype auth_method = Password | GoogleOAuth

fun auth_method_as_str :: "auth_method \<Rightarrow> string" where
  "auth_method_as_str Password = ''password''"
| "auth_method_as_str GoogleOAuth = ''google_oauth''"

definition auth_method_try_from :: "string \<Rightarrow> string + auth_method" where
  "auth_method_try_from value =
     (if value = ''password'' then Inr Password
      else if value = ''google_oauth'' then Inr GoogleOAuth
      else Inl (''Invalid auth method: '' @ value))"

datatype auth_provider = Local | Google

fun auth_provider_as_str :: "auth_provider \<Rightarrow> string" where
  "auth_provider_as_str Local = ''local''"
| "auth_provider_as_str Google = ''google''"

definition auth_provider_try_from :: "string \<Rightarrow> string + auth_provider" where
  "auth_provider_try_from value =
     (if value = ''local'' then Inr Local
      else if value = ''google'' then Inr Google
      else Inl (''Invalid auth provider: '' @ value))"

datatype event_type = Login | Logout | Refresh

fun event_type_as_str :: "event_type \<Rightarrow> string" where
  "event_type_as_str Login = ''login''"
| "event_type_as_str Logout = ''logout''"
| "event_type_as_str Refresh = ''refresh''"

definition event_type_try_from :: "string \<Rightarrow> string + event_type" where
  "event_type_try_from value =
     (if value = ''login'' then Inr Login
      else if value = ''logout'' then Inr Logout
      else if value = ''refresh'' then Inr Refresh
      else Inl (''Invalid event type: '' @ value))"

interpretation method_text: text_enum auth_method_as_str auth_method_try_from
proof
  show "auth_method_try_from (auth_method_as_str x) = Inr x" for x
    by (cases x) (simp_all add: auth_method_try_from_def)
  show "auth_method_try_from s = Inr x \<Longrightarrow> auth_method_as_str x = s" for s x
    by (auto simp: auth_method_try_from_def split: if_splits)
qed

interpretation provider_text: text_enum auth_provider_as_str auth_provider_try_from
proof
  show "auth_provider_try_from (auth_provider_as_str x) = Inr x" for x
    by (cases x) (simp_all add: auth_provider_try_from_def)
  show "auth_provider_try_from s = Inr x \<Longrightarrow> auth_provider_as_str x = s" for s x
    by (auto simp: auth_provider_try_from_def split: if_splits)
qed

interpretation event_text: text_enum event_type_as_str event_type_try_from
proof
  show "event_type_try_from (event_type_as_str x) = Inr x" for x
    by (cases x) (simp_all add: event_type_try_from_def)
  show "event_type_try_from s = Inr x \<Longrightarrow> event_type_as_str x = s" for s x
    by (auto simp: event_type_try_from_def split: if_splits)
qed

datatype domain_error = InvalidEmail string | InvalidValue string | DomainInternal string

fun domain_error_display :: "domain_error \<Rightarrow> string" where
  "domain_error_display (InvalidEmail s) = ''Invalid email: '' @ s"
| "domain_error_display (InvalidValue s) = ''Invalid value: '' @ s"
| "domain_error_display (DomainInternal s) = ''Internal error: '' @ s"

datatype email = Email (email_as_str: string)

definition Email_new :: "string \<Rightarrow> domain_error + email" where
  "Email_new s = (if s = [] \<or> CHR ''@'' \<notin> set s then Inl (InvalidEmail s) else Inr (Email s))"

datatype hashed_password = HashedPassword (hash_as_str: string)

definition HashedPassword_new :: "string \<Rightarrow> string + hashed_password" where
  "HashedPassword_new s =
     (if s = [] then Inl ''Password hash must not be empty'' else Inr (HashedPassword s))"

definition REDACTED_HASH_MARKER :: string where
  "REDACTED_HASH_MARKER = ''<redacted>''"

definition hashed_password_display :: "hashed_password \<Rightarrow> string" where
  "hashed_password_display h = REDACTED_HASH_MARKER"

definition hashed_password_debug :: "hashed_password \<Rightarrow> string" where
  "hashed_password_debug h =
     ''HashedPassword('' @ [CHR 34] @ REDACTED_HASH_MARKER @ [CHR 34] @ '')''"

datatype access_token = AccessToken (access_as_str: string)
datatype refresh_token = RefreshToken (refresh_as_str: string)

record token_pair =
  access_token :: access_token
  refresh_token :: refresh_token

text \<open>A hash or an email that came out of its constructor is accepted by it again.\<close>

lemma HashedPassword_new_iff:
  "HashedPassword_new s = Inr h \<longleftrightarrow> h = HashedPassword s \<and> s \<noteq> []"
  by (auto simp: HashedPassword_new_def)

lemma Email_new_iff:
  "Email_new s = Inr e \<longleftrightarrow> e = Email s \<and> CHR ''@'' \<in> set s"
  by (auto simp: Email_new_def)


section \<open>Domain events\<close>

record user_logged_in =
  li_user_id :: uuid
  li_session_id :: uuid
  li_method :: auth_method
  li_occurred_at :: time

record user_logged_out =
  lo_user_id :: uuid
  lo_session_id :: uuid
  lo_method :: auth_method
  lo_occurred_at :: time

record session_refreshed =
  sr_user_id :: uuid
  sr_session_id :: uuid
  sr_method :: auth_method
  sr_occurred_at :: time

record user_created =
  uc_user_id :: uuid
  uc_provider :: auth_provider
  uc_occurred_at :: time

datatype event =
    UserLoggedIn user_logged_in
  | UserLoggedOut user_logged_out
  | SessionRefreshed session_refreshed
  | UserCreated user_created

text \<open>The \<open>new\<close> constructors read the clock; \<open>now\<close> is that reading.\<close>

definition UserLoggedIn_new :: "time \<Rightarrow> uuid \<Rightarrow> uuid \<Rightarrow> auth_method \<Rightarrow> user_logged_in" where
  "UserLoggedIn_new now user_id session_id method =
     \<lparr>li_user_id = user_id, li_session_id = session_id, li_method = method, li_occurred_at = now\<rparr>"

definition UserLoggedOut_new :: "time \<Rightarrow> uuid \<Rightarrow> uuid \<Rightarrow> auth_method \<Rightarrow> user_logged_out" where
  "UserLoggedOut_new now user_id session_id method =
     \<lparr>lo_user_id = user_id, lo_session_id = session_id, lo_method = method, lo_occurred_at = now\<rparr>"

definition SessionRefreshed_new :: "time \<Rightarrow> uuid \<Rightarrow> uuid \<Rightarrow> auth_method \<Rightarrow> session_refreshed" where
  "SessionRefreshed_new now user_id session_id method =
     \<lparr>sr_user_id = user_id, sr_session_id = session_id, sr_method = method, sr_occurred_at = now\<rparr>"

definition UserCreated_new :: "time \<Rightarrow> uuid \<Rightarrow> auth_provider \<Rightarrow> user_created" where
  "UserCreated_new now user_id provider =
     \<lparr>uc_user_id = user_id, uc_provider = provider, uc_occurred_at = now\<rparr>"

fun event_type_name :: "event \<Rightarrow> string" where
  "event_type_name (UserLoggedIn e) = ''user_logged_in''"
| "event_type_name (UserLoggedOut e) = ''user_logged_out''"
| "event_type_name (SessionRefreshed e) = ''session_refreshed''"
| "event_type_name (UserCreated e) = ''user_created''"

fun event_occurred_at :: "event \<Rightarrow> time" where
  "event_occurred_at (UserLoggedIn e) = li_occurred_at e"
| "event_occurred_at (UserLoggedOut e) = lo_occurred_at e"
| "event_occurred_at (SessionRefreshed e) = sr_occurred_at e"
| "event_occurred_at (UserCreated e) = uc_occurred_at e"

fun event_aggregate_id :: "event \<Rightarrow> uuid" where
  "event_aggregate_id (UserLoggedIn e) = li_user_id e"
| "event_aggregate_id (UserLoggedOut e) = lo_user_id e"
| "event_aggregate_id (SessionRefreshed e) = sr_user_id e"
| "event_aggregate_id (UserCreated e) = uc_user_id e"

fun event_auth_method :: "event \<Rightarrow> auth_method option" where
  "event_auth_method (UserLoggedIn e) = Some (li_method e)"
| "event_auth_method (UserLoggedOut e) = Some (lo_method e)"
| "event_auth_method (SessionRefreshed e) = Some (sr_method e)"
| "event_auth_method (UserCreated e) = None"

fun event_session_id :: "event \<Rightarrow> uuid option" where
  "event_session_id (UserLoggedIn e) = Some (li_session_id e)"
| "event_session_id (UserLoggedOut e) = Some (lo_session_id e)"
| "event_session_id (SessionRefreshed e) = Some (sr_session_id e)"
| "event_session_id (UserCreated e) = None"

definition event_user_id :: "event \<Rightarrow> uuid" where
  "event_user_id e = event_aggregate_id e"

lemmas event_new_defs =
  UserLoggedIn_new_def UserLoggedOut_new_def SessionRefreshed_new_def UserCreated_new_def

end
