(* ===== verification/Auth_Domain.thy ===== *)
theory Auth_Domain
  imports Shared_Domain
begin

text \<open>
  The domain layer of the auth module: the entities of
  \<open>crates/auth/src/domain/entities\<close>, the error type, and the user aggregate of
  \<open>aggregate.rs\<close>, which owns every decision about a user's sessions.  A method that reads
  the clock takes the readings as an argument \<open>clk\<close>: \<open>clk i\<close> is its \<open>i\<close>-th call of
  \<open>Utc::now()\<close>.
\<close>

section \<open>Errors and entities\<close>

datatype auth_error =
    InvalidCredentials
  | UserNotFound
  | TokenVerificationFailed
  | SessionNotFound
  | SessionExpired
  | SessionInvalidated
  | InvalidRefreshToken
  | RateLimited
  | TokenGenerationFailed
  | InternalError string

fun auth_error_display :: "auth_error \<Rightarrow> string" where
  "auth_error_display InvalidCredentials = ''Invalid username or password''"
| "auth_error_display UserNotFound = ''User not found''"
| "auth_error_display TokenVerificationFailed = ''Token verification failed''"
| "auth_error_display SessionNotFound = ''Session not found''"
| "auth_error_display SessionExpired = ''Session has expired''"
| "auth_error_display SessionInvalidated = ''Session is no longer active''"
| "auth_error_display InvalidRefreshToken = ''Refresh token is invalid''"
| "auth_error_display RateLimited = ''Rate limit exceeded''"
| "auth_error_display TokenGenerationFailed = ''Token generation failed''"
| "auth_error_display (InternalError msg) = ''Internal error: '' @ msg"

record session =
  s_id :: uuid
  s_user_id :: uuid
  s_refresh_token_hash :: hashed_password
  s_expires_at :: time
  s_is_active :: bool
  s_created_at :: time
  s_auth_method :: auth_method

record new_session =
  ns_id :: uuid
  ns_user_id :: uuid
  ns_refresh_token_hash :: hashed_password
  ns_expires_at :: time
  ns_auth_method :: auth_method

text \<open>\<open>is_expired\<close> compares with the clock reading \<open>now\<close>.\<close>

definition is_expired :: "time \<Rightarrow> session \<Rightarrow> bool" where
  "is_expired now s \<longleftrightarrow> now \<ge> s_expires_at s"

definition invalidate :: "session \<Rightarrow> session" where
  "invalidate s = s\<lparr>s_is_active := False\<rparr>"

definition NewSession_new ::
  "uuid \<Rightarrow> uuid \<Rightarrow> hashed_password \<Rightarrow> time \<Rightarrow> auth_method \<Rightarrow> new_session" where
  "NewSession_new nid user_id hash expires_at method =
     \<lparr>ns_id = nid, ns_user_id = user_id, ns_refresh_token_hash = hash,
      ns_expires_at = expires_at, ns_auth_method = method\<rparr>"

definition NewSession_validate :: "time \<Rightarrow> new_session \<Rightarrow> string + unit" where
  "NewSession_validate now s =
     (if hash_as_str (ns_refresh_token_hash s) = [] then Inl ''refresh_token_hash must not be empty''
      else if ns_expires_at s \<le> now then Inl ''expires_at must be in the future''
      else Inr ())"

record user =
  u_id :: uuid
  u_username :: "string option"
  u_email :: email
  u_display_name :: string
  u_password_hash :: "hashed_password option"
  u_auth_provider :: auth_provider
  u_created_at :: time
  u_updated_at :: time

text \<open>
  The \<open>debug_assert!\<close>s of \<open>User::validate_invariants\<close>: a debug build aborts where this is
  false, a release build goes on.
\<close>

definition validate_invariants :: "hashed_password option \<Rightarrow> auth_provider \<Rightarrow> bool" where
  "validate_invariants hash provider =
     (case provider of Local \<Rightarrow> hash \<noteq> None | Google \<Rightarrow> hash = None)"

record new_user =
  nu_username :: "string option"
  nu_email :: email
  nu_display_name :: string
  nu_password_hash :: "hashed_password option"
  nu_auth_provider :: auth_provider

definition new_local :: "string option \<Rightarrow> email \<Rightarrow> string \<Rightarrow> hashed_password \<Rightarrow> new_user" where
  "new_local username email display_name hash =
     \<lparr>nu_username = username, nu_email = email, nu_display_name = display_name,
      nu_password_hash = Some hash, nu_auth_provider = Local\<rparr>"

definition new_google :: "email \<Rightarrow> string \<Rightarrow> new_user" where
  "new_google email display_name =
     \<lparr>nu_username = None, nu_email = email, nu_display_name = display_name,
      nu_password_hash = None, nu_auth_provider = Google\<rparr>"

record user_action =
  ua_id :: uuid
  ua_user_id :: uuid
  ua_session_id :: "uuid option"
  ua_event_type :: event_type
  ua_auth_method :: auth_method
  ua_created_at :: time

record new_user_action =
  na_user_id :: uuid
  na_session_id :: "uuid option"
  na_event_type :: event_type
  na_auth_method :: auth_method

definition new_login :: "uuid \<Rightarrow> auth_method \<Rightarrow> new_user_action" where
  "new_login user_id method =
     \<lparr>na_user_id = user_id, na_session_id = None, na_event_type = Login, na_auth_method = method\<rparr>"

definition new_logout :: "uuid \<Rightarrow> uuid \<Rightarrow> auth_method \<Rightarrow> new_user_action" where
  "new_logout user_id session_id method =
     \<lparr>na_user_id = user_id, na_session_id = Some session_id, na_event_type = Logout,
      na_auth_method = method\<rparr>"

definition new_refresh :: "uuid \<Rightarrow> uuid \<Rightarrow> auth_method \<Rightarrow> new_user_action" where
  "new_refresh user_id session_id method =
     \<lparr>na_user_id = user_id, na_session_id = Some session_id, na_event_type = Refresh,
      na_auth_method = method\<rparr>"


section \<open>The user aggregate\<close>

definition MAX_ACTIVE_SESSIONS :: nat where
  "MAX_ACTIVE_SESSIONS = 25"

record user_aggregate =
  ag_user :: user
  ag_sessions :: "session list"
  ag_pending_events :: "event list"

definition UserAggregate_new :: "user \<Rightarrow> session list \<Rightarrow> user_aggregate" where
  "UserAggregate_new user sessions =
     \<lparr>ag_user = user, ag_sessions = sessions, ag_pending_events = []\<rparr>"

definition push_event :: "event \<Rightarrow> user_aggregate \<Rightarrow> user_aggregate" where
  "push_event e ag = ag\<lparr>ag_pending_events := ag_pending_events ag @ [e]\<rparr>"

text \<open>
  The number of sessions that are active and unexpired, each compared with its own
  reading of the clock: the iteration starts at reading \<open>i\<close>.
\<close>

fun count_active :: "(nat \<Rightarrow> time) \<Rightarrow> nat \<Rightarrow> session list \<Rightarrow> nat" where
  "count_active clk i [] = 0"
| "count_active clk i (s # ss) =
     (if s_is_active s \<and> \<not> is_expired (clk i) s then 1 else 0) + count_active clk (Suc i) ss"

definition add_session ::
  "(nat \<Rightarrow> time) \<Rightarrow> uuid \<Rightarrow> hashed_password \<Rightarrow> time \<Rightarrow> auth_method \<Rightarrow> user_aggregate
   \<Rightarrow> (auth_error + new_session) \<times> user_aggregate" where
  "add_session clk session_id hash expires_at method ag =
     (if count_active clk 0 (ag_sessions ag) \<ge> MAX_ACTIVE_SESSIONS
      then (Inl (InternalError ''maximum active sessions reached''), ag)
      else
        (Inr (NewSession_new session_id (u_id (ag_user ag)) hash expires_at method),
         push_event (UserLoggedIn (UserLoggedIn_new (clk (length (ag_sessions ag)))
                       (u_id (ag_user ag)) session_id method)) ag))"

text \<open>\<open>iter_mut().find(|s| s.id() == session_id)\<close> and then \<open>session.invalidate()\<close>.\<close>

definition find_session :: "uuid \<Rightarrow> session list \<Rightarrow> session option" where
  "find_session sid ss = find (\<lambda>s. s_id s = sid) ss"

definition invalidate_first :: "uuid \<Rightarrow> user_aggregate \<Rightarrow> user_aggregate" where
  "invalidate_first sid ag =
     ag\<lparr>ag_sessions := update_first (\<lambda>s. s_id s = sid) invalidate (ag_sessions ag)\<rparr>"

definition invalidate_session ::
  "(nat \<Rightarrow> time) \<Rightarrow> uuid \<Rightarrow> user_aggregate \<Rightarrow> (auth_error + auth_method) \<times> user_aggregate" where
  "invalidate_session clk session_id ag =
     (case find_session session_id (ag_sessions ag) of
        None \<Rightarrow> (Inl SessionNotFound, ag)
      | Some s \<Rightarrow>
          if s_user_id s \<noteq> u_id (ag_user ag) then (Inl SessionNotFound, ag)
          else if \<not> s_is_active s then (Inl SessionInvalidated, ag)
          else if is_expired (clk 0) s then (Inl SessionExpired, ag)
          else
            (Inr (s_auth_method s),
             push_event (UserLoggedOut (UserLoggedOut_new (clk 1) (u_id (ag_user ag)) session_id
                           (s_auth_method s)))
               (invalidate_first session_id ag)))"

definition rotate_session ::
  "(nat \<Rightarrow> time) \<Rightarrow> uuid \<Rightarrow> bool \<Rightarrow> uuid \<Rightarrow> hashed_password \<Rightarrow> time \<Rightarrow> user_aggregate
   \<Rightarrow> (auth_error + new_session) \<times> user_aggregate" where
  "rotate_session clk session_id token_matches new_session_id new_refresh_hash expires_at ag =
     (case find_session session_id (ag_sessions ag) of
        None \<Rightarrow> (Inl SessionNotFound, ag)
      | Some s \<Rightarrow>
          if \<not> s_is_active s then (Inl SessionInvalidated, ag)
          else if is_expired (clk 0) s then (Inl SessionExpired, ag)
          else if \<not> token_matches then (Inl InvalidRefreshToken, ag)
          else
            (Inr (NewSession_new new_session_id (u_id (ag_user ag)) new_refresh_hash expires_at
                    (s_auth_method s)),
             push_event (SessionRefreshed (SessionRefreshed_new (clk 1) (u_id (ag_user ag))
                           new_session_id (s_auth_method s)))
               (invalidate_first session_id ag)))"

text \<open>The loop of \<open>invalidate_all_active_sessions\<close>: the sessions after it and the events
  it pushes, the event of the \<open>i\<close>-th session read at \<open>clk i\<close>.\<close>

fun invalidate_loop :: "(nat \<Rightarrow> time) \<Rightarrow> uuid \<Rightarrow> nat \<Rightarrow> session list \<Rightarrow> session list \<times> event list" where
  "invalidate_loop clk user_id i [] = ([], [])"
| "invalidate_loop clk user_id i (s # ss) =
     (case invalidate_loop clk user_id (Suc i) ss of
        (ss', es) \<Rightarrow>
          if s_is_active s then
            (invalidate s # ss',
             UserLoggedOut (UserLoggedOut_new (clk i) user_id (s_id s) (s_auth_method s)) # es)
          else (s # ss', es))"

definition invalidate_all_active_sessions ::
  "(nat \<Rightarrow> time) \<Rightarrow> user_aggregate \<Rightarrow> user_aggregate" where
  "invalidate_all_active_sessions clk ag =
     (case invalidate_loop clk (u_id (ag_user ag)) 0 (ag_sessions ag) of
        (ss, es) \<Rightarrow> ag\<lparr>ag_sessions := ss, ag_pending_events := ag_pending_events ag @ es\<rparr>)"

definition take_events :: "user_aggregate \<Rightarrow> event list \<times> user_aggregate" where
  "take_events ag = (ag_pending_events ag, ag\<lparr>ag_pending_events := []\<rparr>)"


section \<open>What every operation of the aggregate keeps\<close>

text \<open>The sessions that still grant access at time \<open>now\<close>.\<close>

definition live :: "time \<Rightarrow> session \<Rightarrow> bool" where
  "live now s \<longleftrightarrow> s_is_active s \<and> \<not> is_expired now s"

definition live_count :: "time \<Rightarrow> session list \<Rightarrow> nat" where
  "live_count now ss = length (filter (live now) ss)"

text \<open>The session as it was, or invalidated.\<close>

definition weakened :: "session \<Rightarrow> session \<Rightarrow> bool" where
  "weakened s t \<longleftrightarrow> t = s \<or> t = invalidate s"

text \<open>The well-formedness of an aggregate: distinct session ids, all of its own user, and
  events about that user only.\<close>

definition ag_wf :: "user_aggregate \<Rightarrow> bool" where
  "ag_wf ag \<longleftrightarrow>
     distinct (map s_id (ag_sessions ag)) \<and>
     (\<forall>s \<in> set (ag_sessions ag). s_user_id s = u_id (ag_user ag)) \<and>
     (\<forall>e \<in> set (ag_pending_events ag). event_user_id e = u_id (ag_user ag))"

lemma invalidate_simps [simp]:
  "s_id (invalidate s) = s_id s"
  "s_user_id (invalidate s) = s_user_id s"
  "s_refresh_token_hash (invalidate s) = s_refresh_token_hash s"
  "s_expires_at (invalidate s) = s_expires_at s"
  "\<not> s_is_active (invalidate s)"
  "s_created_at (invalidate s) = s_created_at s"
  "s_auth_method (invalidate s) = s_auth_method s"
  "invalidate (invalidate s) = invalidate s"
  "\<not> live now (invalidate s)"
  by (simp_all add: invalidate_def live_def)

lemma invalidate_inactive: "\<not> s_is_active s \<Longrightarrow> invalidate s = s"
  by (simp add: invalidate_def)

lemma live_mono: "live now' s \<Longrightarrow> now \<le> now' \<Longrightarrow> live now s"
  by (auto simp: live_def is_expired_def)

lemma live_count_mono: "now \<le> now' \<Longrightarrow> live_count now' ss \<le> live_count now ss"
proof (induction ss)
  case (Cons s ss)
  then show ?case by (auto simp: live_count_def dest: live_mono)
qed (simp add: live_count_def)

lemma push_event_simps [simp]:
  "ag_user (push_event e ag) = ag_user ag"
  "ag_sessions (push_event e ag) = ag_sessions ag"
  "ag_pending_events (push_event e ag) = ag_pending_events ag @ [e]"
  by (simp_all add: push_event_def)

lemma invalidate_first_simps [simp]:
  "ag_user (invalidate_first sid ag) = ag_user ag"
  "ag_pending_events (invalidate_first sid ag) = ag_pending_events ag"
  "ag_sessions (invalidate_first sid ag) =
     update_first (\<lambda>s. s_id s = sid) invalidate (ag_sessions ag)"
  by (simp_all add: invalidate_first_def)

lemma weakened_update_first: "list_all2 weakened ss (update_first P invalidate ss)"
  by (induction ss) (auto simp: weakened_def list.rel_refl)

lemma invalidate_loop_sessions: "fst (invalidate_loop clk uid i ss) = map invalidate ss"
  by (induction ss arbitrary: i) (simp_all add: invalidate_inactive case_prod_beta)

lemma invalidate_loop_events:
  "map event_session_id (snd (invalidate_loop clk uid i ss)) =
     map (\<lambda>s. Some (s_id s)) (filter s_is_active ss)"
  "e \<in> set (snd (invalidate_loop clk uid i ss)) \<Longrightarrow>
     \<exists>x. e = UserLoggedOut x \<and> lo_user_id x = uid"
  by (induction ss arbitrary: i)
     (auto simp: UserLoggedOut_new_def case_prod_beta split: if_splits)

text \<open>
  The contract every operation of the aggregate meets: it keeps the user, it leaves each
  session as it is or invalidates it, and it only appends events about its own user.
\<close>

locale aggregate_op =
  fixes operation :: "user_aggregate \<Rightarrow> user_aggregate"
  assumes op_user: "ag_user (operation ag) = ag_user ag"
    and op_sessions: "list_all2 weakened (ag_sessions ag) (ag_sessions (operation ag))"
    and op_events: "\<exists>es. ag_pending_events (operation ag) = ag_pending_events ag @ es \<and>
                      (\<forall>e \<in> set es. event_user_id e = u_id (ag_user ag))"
begin

lemma op_ids: "map s_id (ag_sessions (operation ag)) = map s_id (ag_sessions ag)"
proof -
  have "list_all2 weakened ss ts \<Longrightarrow> map s_id ts = map s_id ss" for ss ts
    by (induction rule: list_all2_induct) (auto simp: weakened_def)
  then show ?thesis using op_sessions by blast
qed

lemma op_owner:
  assumes "\<forall>s \<in> set (ag_sessions ag). s_user_id s = uid"
  shows "\<forall>s \<in> set (ag_sessions (operation ag)). s_user_id s = uid"
proof -
  have "list_all2 weakened ss ts \<Longrightarrow> \<forall>s \<in> set ss. s_user_id s = uid \<Longrightarrow>
        \<forall>s \<in> set ts. s_user_id s = uid" for ss ts
    by (induction rule: list_all2_induct) (auto simp: weakened_def)
  then show ?thesis using op_sessions assms by blast
qed

lemma op_wf: "ag_wf ag \<Longrightarrow> ag_wf (operation ag)"
  using op_events [of ag] op_owner [of ag "u_id (ag_user ag)"]
  by (auto simp: ag_wf_def op_ids op_user)

lemma op_live_count: "live_count now (ag_sessions (operation ag)) \<le> live_count now (ag_sessions ag)"
proof -
  have "list_all2 weakened ss ts \<Longrightarrow> live_count now ts \<le> live_count now ss" for ss ts
    by (induction rule: list_all2_induct) (auto simp: weakened_def live_count_def)
  then show ?thesis using op_sessions by blast
qed

lemma op_no_reactivation:
  assumes "t \<in> set (ag_sessions (operation ag))" and "s_is_active t"
  shows "t \<in> set (ag_sessions ag)"
proof -
  have "list_all2 weakened ss ts \<Longrightarrow> t \<in> set ts \<Longrightarrow> s_is_active t \<Longrightarrow> t \<in> set ss" for ss ts
    by (induction rule: list_all2_induct) (auto simp: weakened_def)
  then show ?thesis using op_sessions assms by blast
qed

end

interpretation add_op: aggregate_op "\<lambda>ag. snd (add_session clk sid hash expires_at mth ag)"
  for clk sid hash expires_at mth
  by unfold_locales
     (auto simp: add_session_def weakened_def event_user_id_def UserLoggedIn_new_def
           intro: list_all2_refl)

interpretation invalidate_op: aggregate_op "\<lambda>ag. snd (invalidate_session clk sid ag)"
  for clk sid
  by unfold_locales
     (auto simp: invalidate_session_def weakened_def event_user_id_def UserLoggedOut_new_def
                 weakened_update_first
           intro: list_all2_refl split: option.splits)

interpretation rotate_op:
  aggregate_op "\<lambda>ag. snd (rotate_session clk sid matches nid hash expires_at ag)"
  for clk sid matches nid hash expires_at
  by unfold_locales
     (auto simp: rotate_session_def weakened_def event_user_id_def SessionRefreshed_new_def
                 weakened_update_first
           intro: list_all2_refl split: option.splits)

interpretation invalidate_all_op: aggregate_op "invalidate_all_active_sessions clk"
  for clk
proof
  fix ag :: user_aggregate
  obtain ss es where l: "invalidate_loop clk (u_id (ag_user ag)) 0 (ag_sessions ag) = (ss, es)"
    by fastforce
  have ss: "ss = map invalidate (ag_sessions ag)"
    using invalidate_loop_sessions [of clk "u_id (ag_user ag)" 0 "ag_sessions ag"] l by simp
  have es: "\<forall>e \<in> set es. event_user_id e = u_id (ag_user ag)"
    using invalidate_loop_events(2) [of _ clk "u_id (ag_user ag)" 0 "ag_sessions ag"] l
    by (fastforce simp: event_user_id_def)
  show "ag_user (invalidate_all_active_sessions clk ag) = ag_user ag"
    by (simp add: invalidate_all_active_sessions_def l)
  show "list_all2 weakened (ag_sessions ag) (ag_sessions (invalidate_all_active_sessions clk ag))"
    by (simp add: invalidate_all_active_sessions_def l ss weakened_def list_all2_conv_all_nth)
  show "\<exists>es. ag_pending_events (invalidate_all_active_sessions clk ag) = ag_pending_events ag @ es \<and>
          (\<forall>e \<in> set es. event_user_id e = u_id (ag_user ag))"
    by (simp add: invalidate_all_active_sessions_def l es)
qed


section \<open>The session rules\<close>

lemma count_active_ge_live_count:
  "\<forall>j < i + length ss. clk j \<le> now \<Longrightarrow> live_count now ss \<le> count_active clk i ss"
proof (induction ss arbitrary: i)
  case Nil
  then show ?case by (simp add: live_count_def)
next
  case (Cons s ss)
  then have "live_count now ss \<le> count_active clk (Suc i) ss" and "clk i \<le> now"
    by simp_all
  then show ?case
    by (auto simp: live_count_def live_def is_expired_def)
qed

lemma count_active_const: "count_active (\<lambda>_. now) i ss = live_count now ss"
  by (induction ss arbitrary: i) (simp_all add: live_count_def live_def)

text \<open>The session a database row of a new session stands for.\<close>

definition session_of_new :: "time \<Rightarrow> new_session \<Rightarrow> session" where
  "session_of_new created_at ns =
     \<lparr>s_id = ns_id ns, s_user_id = ns_user_id ns, s_refresh_token_hash = ns_refresh_token_hash ns,
      s_expires_at = ns_expires_at ns, s_is_active = True, s_created_at = created_at,
      s_auth_method = ns_auth_method ns\<rparr>"

lemma find_session_SomeD: "find_session sid ss = Some s \<Longrightarrow> s \<in> set ss \<and> s_id s = sid"
  by (auto simp: find_session_def dest: find_SomeD)

lemma invalidate_all_sessions:
  "ag_sessions (invalidate_all_active_sessions clk ag) = map invalidate (ag_sessions ag)"
  using invalidate_loop_sessions [of clk "u_id (ag_user ag)" 0 "ag_sessions ag"]
  by (simp add: invalidate_all_active_sessions_def case_prod_beta)

lemma live_count_update_first:
  assumes "distinct (map s_id ss)" and "find_session sid ss = Some s" and "live now s"
  shows "Suc (live_count now (update_first (\<lambda>s. s_id s = sid) invalidate ss)) = live_count now ss"
  using assms by (induction ss) (auto simp: live_count_def find_session_def split: if_splits)


section \<open>The life of a user's sessions\<close>

text \<open>
  The aggregate between two requests: the new session of an operation is stored (and its
  pending events handed on) before the next operation reads the sessions.  A step takes the
  aggregate and the time to those after it; the clock readings of an operation lie
  between the two times, and a new session id is fresh.
\<close>

definition store_session :: "time \<Rightarrow> new_session \<Rightarrow> user_aggregate \<Rightarrow> user_aggregate" where
  "store_session created_at ns ag =
     ag\<lparr>ag_sessions := ag_sessions ag @ [session_of_new created_at ns], ag_pending_events := []\<rparr>"

definition clk_between :: "time \<Rightarrow> (nat \<Rightarrow> time) \<Rightarrow> time \<Rightarrow> bool" where
  "clk_between t clk u \<longleftrightarrow> t \<le> u \<and> (\<forall>i. t \<le> clk i \<and> clk i \<le> u)"

inductive session_step :: "user_aggregate \<times> time \<Rightarrow> user_aggregate \<times> time \<Rightarrow> bool" where
  step_login:
    "\<lbrakk>add_session clk sid hash expires_at method ag = (Inr ns, ag1); clk_between t clk u;
      sid \<notin> s_id ` set (ag_sessions ag)\<rbrakk>
     \<Longrightarrow> session_step (ag, t) (store_session created_at ns ag1, u)"
| step_refresh:
    "\<lbrakk>rotate_session clk sid token_matches nid hash expires_at ag = (Inr ns, ag1); clk_between t clk u;
      nid \<notin> s_id ` set (ag_sessions ag)\<rbrakk>
     \<Longrightarrow> session_step (ag, t) (store_session created_at ns ag1, u)"
| step_logout:
    "clk_between t clk u \<Longrightarrow> session_step (ag, t) (snd (invalidate_session clk sid ag), u)"
| step_revoke_all:
    "clk_between t clk u \<Longrightarrow> session_step (ag, t) (invalidate_all_active_sessions clk ag, u)"
| step_wait:
    "t \<le> u \<Longrightarrow> session_step (ag, t) (ag, u)"

inductive session_run :: "user_aggregate \<times> time \<Rightarrow> user_aggregate \<times> time \<Rightarrow> bool" where
  run_refl: "session_run x x"
| run_step: "session_run x y \<Longrightarrow> session_step y z \<Longrightarrow> session_run x z"

definition cap_inv :: "user_aggregate \<times> time \<Rightarrow> bool" where
  "cap_inv x \<longleftrightarrow>
     distinct (map s_id (ag_sessions (fst x))) \<and>
     live_count (snd x) (ag_sessions (fst x)) \<le> MAX_ACTIVE_SESSIONS"

lemma live_count_append [simp]: "live_count now (ss @ ts) = live_count now ss + live_count now ts"
  by (simp add: live_count_def)

lemma live_count_single: "live_count now [s] \<le> 1"
  by (simp add: live_count_def)

lemma store_session_sessions [simp]:
  "ag_sessions (store_session created_at ns ag) = ag_sessions ag @ [session_of_new created_at ns]"
  by (simp add: store_session_def)

lemma session_of_new_id [simp]: "s_id (session_of_new created_at ns) = ns_id ns"
  by (simp add: session_of_new_def)

lemma find_session_invalidated:
  "find_session sid ss = Some s \<Longrightarrow>
     find_session sid (update_first (\<lambda>s. s_id s = sid) invalidate ss) = Some (invalidate s)"
  "other \<noteq> sid \<Longrightarrow>
     find_session other (update_first (\<lambda>s. s_id s = sid) invalidate ss) = find_session other ss"
  by (induction ss) (auto simp: find_session_def split: if_splits)

lemma add_session_Inr:
  assumes "add_session clk sid hash expires_at method ag = (Inr ns, ag1)"
  shows "count_active clk 0 (ag_sessions ag) < MAX_ACTIVE_SESSIONS"
    and "ns = NewSession_new sid (u_id (ag_user ag)) hash expires_at method"
    and "ag_sessions ag1 = ag_sessions ag"
  using assms by (auto simp: add_session_def split: if_splits)

lemma rotate_session_Inr:
  assumes "rotate_session clk sid token_matches nid hash expires_at ag = (Inr ns, ag1)"
  obtains s where "find_session sid (ag_sessions ag) = Some s" and "live (clk 0) s"
    and "token_matches"
    and "ns = NewSession_new nid (u_id (ag_user ag)) hash expires_at (s_auth_method s)"
    and "ag_sessions ag1 = update_first (\<lambda>s. s_id s = sid) invalidate (ag_sessions ag)"
    and "ag_user ag1 = ag_user ag"
  using assms by (auto simp: rotate_session_def live_def split: option.splits if_splits)

lemma cap_inv_login:
  assumes "add_session clk sid hash expires_at method ag = (Inr ns, ag1)" and "clk_between t clk u"
    and "sid \<notin> s_id ` set (ag_sessions ag)" and "cap_inv (ag, t)"
  shows "cap_inv (store_session created_at ns ag1, u)"
proof -
  note new = add_session_Inr [OF assms(1)]
  have "live_count u (ag_sessions ag) \<le> count_active clk 0 (ag_sessions ag)"
    using assms(2) by (intro count_active_ge_live_count) (simp add: clk_between_def)
  then show ?thesis
    using new assms(3,4) live_count_single [of u "session_of_new created_at ns"]
    by (simp add: cap_inv_def NewSession_new_def)
qed

lemma cap_inv_refresh:
  assumes "rotate_session clk sid m nid hash expires_at ag = (Inr ns, ag1)" and "clk_between t clk u"
    and "nid \<notin> s_id ` set (ag_sessions ag)" and "cap_inv (ag, t)"
  shows "cap_inv (store_session created_at ns ag1, u)"
proof -
  obtain s where s: "find_session sid (ag_sessions ag) = Some s" "live (clk 0) s"
    and ns: "ns_id ns = nid"
    and ag1: "ag_sessions ag1 = update_first (\<lambda>s. s_id s = sid) invalidate (ag_sessions ag)"
    using rotate_session_Inr [OF assms(1)] by (metis NewSession_new_def new_session.select_convs(1))
  have ids: "map s_id (ag_sessions ag1) = map s_id (ag_sessions ag)"
    using rotate_op.op_ids [of clk sid m nid hash expires_at ag] assms(1) by simp
  have tu: "t \<le> u" and lv: "live t s"
    using assms(2) live_mono [OF s(2)] by (simp_all add: clk_between_def)
  have "Suc (live_count t (ag_sessions ag1)) = live_count t (ag_sessions ag)"
    using live_count_update_first [OF _ s(1) lv] assms(4) by (simp add: cap_inv_def ag1)
  moreover have "live_count u (ag_sessions ag1) \<le> live_count t (ag_sessions ag1)"
    using tu by (rule live_count_mono)
  moreover have "ns_id ns \<notin> set (map s_id (ag_sessions ag1))"
    using assms(3) unfolding ids ns by simp
  moreover have "distinct (map s_id (ag_sessions ag1))"
    using assms(4) unfolding ids by (simp add: cap_inv_def)
  ultimately show ?thesis
    using assms(4) live_count_single [of u "session_of_new created_at ns"] by (simp add: cap_inv_def)
qed

lemma cap_inv_step:
  assumes "session_step x y" and "cap_inv x"
  shows "cap_inv y"
  using assms
proof (induction rule: session_step.induct)
  case (step_login clk sid hash expires_at mth ag ns ag1 t u created_at)
  then show ?case by (intro cap_inv_login)
next
  case (step_refresh clk sid token_matches nid hash expires_at ag ns ag1 t u created_at)
  then show ?case by (intro cap_inv_refresh)
next
  case (step_logout t clk u ag sid)
  then show ?case
    using invalidate_op.op_live_count [of u clk sid ag] live_count_mono [of t u "ag_sessions ag"]
    by (simp add: cap_inv_def invalidate_op.op_ids clk_between_def)
next
  case (step_revoke_all t clk u ag)
  then show ?case
    using invalidate_all_op.op_live_count [of u clk ag] live_count_mono [of t u "ag_sessions ag"]
    by (simp add: cap_inv_def invalidate_all_op.op_ids clk_between_def)
next
  case (step_wait t u ag)
  then show ?case
    using live_count_mono [of t u "ag_sessions ag"] by (simp add: cap_inv_def)
qed


section \<open>Properties\<close>

text \<open>
  C6.  Whatever sequence of logins, refreshes, logouts, mass revocations and waiting a
  user goes through, the number of sessions that grant access at the current time never
  exceeds MAX_ACTIVE_SESSIONS, and session ids stay distinct.
\<close>

theorem session_cap_invariant:
  assumes "session_run (ag, t) (ag', u)"
    and "distinct (map s_id (ag_sessions ag))"
    and "live_count t (ag_sessions ag) \<le> MAX_ACTIVE_SESSIONS"
  shows "live_count u (ag_sessions ag') \<le> MAX_ACTIVE_SESSIONS \<and> distinct (map s_id (ag_sessions ag'))"
proof -
  have "cap_inv y" if "session_run x y" "cap_inv x" for x y
    using that by (induction rule: session_run.induct) (auto intro: cap_inv_step)
  from this [OF assms(1)] show ?thesis using assms(2,3) by (simp add: cap_inv_def)
qed

text \<open>A user with no session, and the same user after one login and one logout.\<close>

definition sample_user :: user where
  "sample_user = \<lparr>u_id = 1, u_username = Some ''ann'', u_email = Email ''ann@x.io'',
     u_display_name = ''Ann'', u_password_hash = None, u_auth_provider = Local,
     u_created_at = 0, u_updated_at = 0\<rparr>"

theorem session_cap_invariant_witness:
  "\<exists>ag' u. session_run (UserAggregate_new sample_user [], 0) (ag', u) \<and>
     length (ag_sessions ag') = 2 \<and> live_count u (ag_sessions ag') \<le> MAX_ACTIVE_SESSIONS"
proof -
  let ?ag = "UserAggregate_new sample_user []"
  let ?ns = "NewSession_new 1 1 (HashedPassword ''h'') 100 Password"
  let ?ag1 = "store_session 0 ?ns (snd (add_session (\<lambda>_. 0) 1 (HashedPassword ''h'') 100 Password ?ag))"
  let ?r = "rotate_session (\<lambda>_. 5) 1 True 0 (HashedPassword ''k'') 200 ?ag1"
  let ?ns2 = "NewSession_new 0 1 (HashedPassword ''k'') 200 Password"
  have "session_step (?ag, 0) (?ag1, 5)"
    by (rule step_login [where clk = "\<lambda>_. 0"])
       (simp_all add: add_session_def clk_between_def UserAggregate_new_def sample_user_def
          MAX_ACTIVE_SESSIONS_def)
  moreover have "session_step (?ag1, 5) (store_session 0 ?ns2 (snd ?r), 9)"
    by (rule step_refresh [where clk = "\<lambda>_. 5" and sid = 1 and token_matches = True and nid = 0
          and hash = "HashedPassword ''k''" and expires_at = 200])
       (simp_all add: rotate_session_def find_session_def session_of_new_def NewSession_new_def
          is_expired_def add_session_def clk_between_def UserAggregate_new_def sample_user_def
          MAX_ACTIVE_SESSIONS_def store_session_def push_event_def invalidate_first_def)
  ultimately have run: "session_run (?ag, 0) (store_session 0 ?ns2 (snd ?r), 9)"
    by (blast intro: session_run.intros)
  have "length (ag_sessions (store_session 0 ?ns2 (snd ?r))) = 2"
    using rotate_op.op_ids [of "\<lambda>_. 5" 1 True 0 "HashedPassword ''k''" 200 ?ag1, THEN arg_cong [of _ _ length]]
    by (simp add: add_session_def UserAggregate_new_def MAX_ACTIVE_SESSIONS_def)
  moreover have "live_count 9 (ag_sessions (store_session 0 ?ns2 (snd ?r))) \<le> MAX_ACTIVE_SESSIONS"
    using session_cap_invariant [OF run] by (simp add: UserAggregate_new_def live_count_def)
  ultimately show ?thesis using run by blast
qed

text \<open>
  C5.  A refresh token is good for one rotation.  A rotation succeeds only with a matching
  token on a session that is active and unexpired; it keeps the login method, replaces
  exactly that session, and from then on every further attempt to rotate or log out the
  old session is answered with SessionInvalidated, whether the token matches or not.
\<close>

theorem rotation_is_single_use:
  assumes "rotate_session clk sid token_matches nid hash expires_at ag = (Inr ns, ag')"
    and "ag_wf ag"
  shows "token_matches \<and>
    (\<exists>s. find_session sid (ag_sessions ag) = Some s \<and> live (clk 0) s \<and>
         ns = NewSession_new nid (u_id (ag_user ag)) hash expires_at (s_auth_method s)) \<and>
    (\<forall>clk' m nid' hash' e'.
       rotate_session clk' sid m nid' hash' e' ag' = (Inl SessionInvalidated, ag')) \<and>
    (\<forall>clk'. invalidate_session clk' sid ag' = (Inl SessionInvalidated, ag')) \<and>
    (\<forall>other. other \<noteq> sid \<longrightarrow>
       find_session other (ag_sessions ag') = find_session other (ag_sessions ag))"
proof -
  obtain s where s: "find_session sid (ag_sessions ag) = Some s" "live (clk 0) s" "token_matches"
      "ns = NewSession_new nid (u_id (ag_user ag)) hash expires_at (s_auth_method s)"
      "ag_sessions ag' = update_first (\<lambda>s. s_id s = sid) invalidate (ag_sessions ag)"
      "ag_user ag' = ag_user ag"
    by (rule rotate_session_Inr [OF assms(1)])
  have old: "find_session sid (ag_sessions ag') = Some (invalidate s)"
    using s(1) by (simp add: s(5) find_session_invalidated)
  have others: "find_session other (ag_sessions ag') = find_session other (ag_sessions ag)"
    if "other \<noteq> sid" for other
    using that by (simp add: s(5) find_session_invalidated)
  have "s_user_id s = u_id (ag_user ag')"
    using find_session_SomeD [OF s(1)] assms(2) s(6) by (auto simp: ag_wf_def)
  then show ?thesis
    using s(1-4) old others by (simp add: rotate_session_def invalidate_session_def)
qed


theorem rotation_is_single_use_witness:
  "let s = \<lparr>s_id = 1, s_user_id = 1, s_refresh_token_hash = HashedPassword ''h'', s_expires_at = 100,
             s_is_active = True, s_created_at = 0, s_auth_method = GoogleOAuth\<rparr>;
       ag = UserAggregate_new sample_user [s];
       r = rotate_session (\<lambda>_. 5) 1 True 0 (HashedPassword ''k'') 200 ag
   in ag_wf ag \<and> (\<exists>ns. fst r = Inr ns \<and> ns_auth_method ns = GoogleOAuth) \<and>
      fst (rotate_session (\<lambda>_. 6) 1 True 2 (HashedPassword ''k'') 200 (snd r)) = Inl SessionInvalidated"
proof -
  let ?s = "\<lparr>s_id = 1, s_user_id = 1, s_refresh_token_hash = HashedPassword ''h'', s_expires_at = 100,
             s_is_active = True, s_created_at = 0, s_auth_method = GoogleOAuth\<rparr>"
  let ?ag = "UserAggregate_new sample_user [?s]"
  let ?r = "rotate_session (\<lambda>_. 5) 1 True 0 (HashedPassword ''k'') 200 ?ag"
  have wf: "ag_wf ?ag" by (simp add: ag_wf_def UserAggregate_new_def sample_user_def)
  obtain ns where ns: "fst ?r = Inr ns" "ns_auth_method ns = GoogleOAuth"
    by (simp add: rotate_session_def find_session_def is_expired_def UserAggregate_new_def
          NewSession_new_def)
  then have "?r = (Inr ns, snd ?r)" by (simp add: prod_eq_iff)
  from rotation_is_single_use [OF this wf] show ?thesis
    using wf ns by (simp add: Let_def)
qed

text \<open>
  C36.  Mass revocation: afterwards no session of the aggregate is active, no session is
  added, removed or otherwise changed, and exactly one logout event per session that was
  active is pending, in the order of the sessions.
\<close>

theorem mass_revocation_complete:
  "ag_sessions (invalidate_all_active_sessions clk ag) = map invalidate (ag_sessions ag) \<and>
   live_count now (ag_sessions (invalidate_all_active_sessions clk ag)) = 0 \<and>
   (\<exists>es. ag_pending_events (invalidate_all_active_sessions clk ag) = ag_pending_events ag @ es \<and>
         map event_type_name es = replicate (length es) ''user_logged_out'' \<and>
         map event_session_id es = map (\<lambda>s. Some (s_id s)) (filter s_is_active (ag_sessions ag)))"
proof -
  let ?es = "snd (invalidate_loop clk (u_id (ag_user ag)) 0 (ag_sessions ag))"
  have "map event_type_name ?es = replicate (length ?es) ''user_logged_out''"
    using invalidate_loop_events(2) [of _ clk "u_id (ag_user ag)" 0 "ag_sessions ag"]
    by (intro replicate_eqI) fastforce+
  moreover have "live_count now (map invalidate (ag_sessions ag)) = 0"
    by (induction "ag_sessions ag") (simp_all add: live_count_def)
  moreover have "ag_pending_events (invalidate_all_active_sessions clk ag) = ag_pending_events ag @ ?es"
    by (simp add: invalidate_all_active_sessions_def case_prod_beta)
  ultimately show ?thesis
    using invalidate_loop_events(1) [of clk "u_id (ag_user ag)" 0 "ag_sessions ag"]
    by (simp add: invalidate_all_sessions del: map_replicate_const)
qed

end
