(* ===== verification/Database.thy ===== *)
theory Database
  imports Auth_Domain
begin

text \<open>
  The PostgreSQL schema of \<open>migrations/*.sql\<close> and the SQL statements the adapters send.
  A table is the list of its rows in insertion order; a statement is a function of the
  database that either fails and changes nothing, or returns its rows and the new
  database.  The constraints of the schema (primary keys, UNIQUE, foreign keys, CHECK,
  VARCHAR lengths) are the guards of the write statements.  Whether the server can be
  reached, and what it calls its errors, are parameters.
\<close>

section \<open>Tables\<close>

record user_row =
  usr_id :: uuid
  usr_username :: "string option"
  usr_email :: string
  usr_display_name :: string
  usr_password_hash :: "string option"
  usr_auth_provider :: string
  usr_created_at :: time
  usr_updated_at :: time

record session_row =
  ses_id :: uuid
  ses_user_id :: uuid
  ses_refresh_token_hash :: string
  ses_expires_at :: time
  ses_is_active :: bool
  ses_created_at :: time
  ses_auth_method :: string

record action_row =
  act_id :: uuid
  act_user_id :: uuid
  act_session_id :: "uuid option"
  act_event_type :: string
  act_auth_method :: string
  act_created_at :: time

record profile_row =
  prf_user_id :: uuid
  prf_avatar_url :: "string option"
  prf_bio :: "string option"
  prf_updated_at :: time

record role_row =
  rol_user_id :: uuid
  rol_role :: string
  rol_updated_at :: time

record outbox_row =
  out_jti :: uuid
  out_ttl_secs :: int
  out_created_at :: time
  out_expires_at :: time

record database =
  users :: "user_row list"
  sessions :: "session_row list"
  user_actions :: "action_row list"
  user_profiles :: "profile_row list"
  user_roles :: "role_row list"
  outbox :: "outbox_row list"

definition empty_db :: database where
  "empty_db = \<lparr>users = [], sessions = [], user_actions = [], user_profiles = [], user_roles = [],
               outbox = []\<rparr>"


section \<open>Errors, connection and world\<close>

datatype pg_error =
    Unique_Violation string
  | Foreign_Key_Violation string
  | Check_Violation string
  | Value_Too_Long nat
  | Invalid_Text
  | Timestamp_Out_Of_Range
  | Connection_Error

text \<open>The connection at one statement: up, or lost, the flag telling whether the server
  executed the statement although the reply never arrived.\<close>

datatype pg_link = Pg_Up | Pg_Down bool

type_synonym 'a statement = "time \<Rightarrow> database \<Rightarrow> (pg_error + 'a) \<times> database"

fun pg_run :: "pg_link \<Rightarrow> time \<Rightarrow> 'a statement \<Rightarrow> database \<Rightarrow> (pg_error + 'a) \<times> database" where
  "pg_run Pg_Up now f d = f now d"
| "pg_run (Pg_Down executed) now f d = (Inl Connection_Error, if executed then snd (f now d) else d)"

text \<open>
  The environment of the service: clock readings and fresh ids, the state of the
  database connection and the server's clock at each step of the execution, and the
  text of database errors.  \<open>utc E n i\<close> is the \<open>i\<close>-th clock reading of step \<open>n\<close>.
\<close>

record env =
  utc :: "nat \<Rightarrow> nat \<Rightarrow> time"
  now_v7 :: "nat \<Rightarrow> nat \<Rightarrow> uuid"
  pg_link_at :: "nat \<Rightarrow> pg_link"
  pg_now :: "nat \<Rightarrow> time"
  pg_show :: "pg_error \<Rightarrow> string"

record world =
  tick :: nat
  db :: database

definition next_tick :: "('z) world_scheme \<Rightarrow> 'z world_scheme" where
  "next_tick w = w\<lparr>tick := Suc (tick w)\<rparr>"

text \<open>\<open>Utc::now()\<close> and \<open>Uuid::now_v7()\<close>.\<close>

definition nowE :: "('e) env_scheme \<Rightarrow> ('z world_scheme, 'err, time) eff" where
  "nowE E w = (Inr (utc E (tick w) 0), next_tick w)"

definition now_v7E :: "('e) env_scheme \<Rightarrow> ('z world_scheme, 'err, uuid) eff" where
  "now_v7E E w = (Inr (now_v7 E (tick w) 0), next_tick w)"

text \<open>One statement on the pool.\<close>

definition stmtE :: "('e) env_scheme \<Rightarrow> 'a statement \<Rightarrow> ('z world_scheme, pg_error, 'a) eff" where
  "stmtE E f w =
     (case pg_run (pg_link_at E (tick w)) (pg_now E (tick w)) f (db w) of
        (r, d) \<Rightarrow> (r, (next_tick w)\<lparr>db := d\<rparr>))"

text \<open>
  A transaction works on its own copy of the database, which COMMIT installs; an error
  on the way drops the copy.  The state of the body is the copy with the world.
\<close>

definition txstmtE ::
  "('e) env_scheme \<Rightarrow> 'a statement \<Rightarrow> (database \<times> 'z world_scheme, pg_error, 'a) eff" where
  "txstmtE E f s =
     (case s of (d, w) \<Rightarrow>
        (case pg_link_at E (tick w) of
           Pg_Up \<Rightarrow> (case f (pg_now E (tick w)) d of (r, d1) \<Rightarrow> (r, d1, next_tick w))
         | Pg_Down _ \<Rightarrow> (Inl Connection_Error, d, next_tick w)))"

definition beginE :: "('e) env_scheme \<Rightarrow> ('z world_scheme, pg_error, unit) eff" where
  "beginE E w =
     (case pg_link_at E (tick w) of
        Pg_Up \<Rightarrow> (Inr (), next_tick w)
      | Pg_Down _ \<Rightarrow> (Inl Connection_Error, next_tick w))"

definition commitE :: "('e) env_scheme \<Rightarrow> database \<Rightarrow> ('z world_scheme, pg_error, unit) eff" where
  "commitE E d w =
     (case pg_link_at E (tick w) of
        Pg_Up \<Rightarrow> (Inr (), (next_tick w)\<lparr>db := d\<rparr>)
      | Pg_Down executed \<Rightarrow>
          (Inl Connection_Error, if executed then (next_tick w)\<lparr>db := d\<rparr> else next_tick w))"


section \<open>Column types\<close>

fun take_chars :: "nat \<Rightarrow> string \<Rightarrow> string" where
  "take_chars n [] = []"
| "take_chars n (c # cs) =
     (if 128 \<le> (of_char c :: nat) \<and> (of_char c :: nat) < 192 then c # take_chars n cs
      else (case n of 0 \<Rightarrow> [] | Suc m \<Rightarrow> c # take_chars m cs))"

text \<open>A text value: no zero byte.  VARCHAR(n): at most \<open>n\<close> characters, excess spaces
  being cut off.\<close>

definition as_text :: "string \<Rightarrow> pg_error + string" where
  "as_text s = (if CHR 0x00 \<in> set s then Inl Invalid_Text else Inr s)"

definition as_varchar :: "nat \<Rightarrow> string \<Rightarrow> pg_error + string" where
  "as_varchar n s =
     bindR (as_text s) (\<lambda>s.
       if char_count s \<le> n then Inr s
       else if \<forall>c \<in> set (drop (length (take_chars n s)) s). c = CHR '' '' then Inr (take_chars n s)
       else Inl (Value_Too_Long n))"


section \<open>Statements on users\<close>

text \<open>\<open>SELECT ... FROM users WHERE username = $1\<close> (and email, id): at most one row, by the
  UNIQUE constraints; a NULL username equals nothing.\<close>

definition select_user_by_username :: "string \<Rightarrow> user_row option statement" where
  "select_user_by_username name now d =
     (case as_text name of Inl e \<Rightarrow> (Inl e, d)
      | Inr t \<Rightarrow> (Inr (find (\<lambda>r. usr_username r = Some t) (users d)), d))"

definition select_user_by_email :: "string \<Rightarrow> user_row option statement" where
  "select_user_by_email email now d =
     (case as_text email of Inl e \<Rightarrow> (Inl e, d)
      | Inr t \<Rightarrow> (Inr (find (\<lambda>r. usr_email r = t) (users d)), d))"

definition select_user_by_id :: "uuid \<Rightarrow> user_row option statement" where
  "select_user_by_id uid now d = (Inr (find (\<lambda>r. usr_id r = uid) (users d)), d)"

text \<open>\<open>INSERT INTO users ... RETURNING ...\<close>.\<close>

definition insert_user :: "user_row \<Rightarrow> user_row statement" where
  "insert_user r now d =
     (case bindR (transposeR (as_varchar 255) (usr_username r)) (\<lambda>username.
           bindR (as_varchar 255 (usr_email r)) (\<lambda>email.
           bindR (as_varchar 255 (usr_display_name r)) (\<lambda>display_name.
           bindR (transposeR (as_varchar 255) (usr_password_hash r)) (\<lambda>hash.
           bindR (as_varchar 50 (usr_auth_provider r)) (\<lambda>provider.
             let r1 = r\<lparr>usr_username := username, usr_email := email, usr_display_name := display_name,
                        usr_password_hash := hash, usr_auth_provider := provider\<rparr>
             in if usr_id r1 \<in> usr_id ` set (users d) then Inl (Unique_Violation ''users_pkey'')
                else if username \<noteq> None \<and> username \<in> usr_username ` set (users d)
                  then Inl (Unique_Violation ''users_username_key'')
                else if email \<in> usr_email ` set (users d)
                  then Inl (Unique_Violation ''users_email_key'')
                else Inr r1))))) of
        Inl e \<Rightarrow> (Inl e, d)
      | Inr r1 \<Rightarrow> (Inr r1, d\<lparr>users := users d @ [r1]\<rparr>))"

text \<open>\<open>SELECT ... FROM users ORDER BY created_at DESC, id DESC LIMIT $1 OFFSET $2\<close>.\<close>

definition select_users_page :: "nat \<Rightarrow> nat \<Rightarrow> user_row list statement" where
  "select_users_page limit offset now d =
     (Inr (take limit (drop offset
        (sort_key (\<lambda>r. - usr_created_at r) (sort_key (\<lambda>r. - uint (usr_id r)) (users d))))), d)"

definition count_users_stmt :: "int statement" where
  "count_users_stmt now d = (Inr (int (length (users d))), d)"


section \<open>Statements on sessions and user actions\<close>

definition select_sessions_by_user :: "uuid \<Rightarrow> session_row list statement" where
  "select_sessions_by_user uid now d =
     (Inr (sort_key (\<lambda>r. - ses_created_at r) (filter (\<lambda>r. ses_user_id r = uid) (sessions d))), d)"

definition select_active_sessions_by_user :: "uuid \<Rightarrow> session_row list statement" where
  "select_active_sessions_by_user uid now d =
     (Inr (sort_key (\<lambda>r. - ses_created_at r)
        (filter (\<lambda>r. ses_user_id r = uid \<and> ses_is_active r \<and> ses_expires_at r > now) (sessions d))), d)"

definition select_session_by_id :: "uuid \<Rightarrow> session_row option statement" where
  "select_session_by_id sid now d = (Inr (find (\<lambda>r. ses_id r = sid) (sessions d)), d)"

definition insert_session_row :: "session_row \<Rightarrow> session_row statement" where
  "insert_session_row r now d =
     (case bindR (as_varchar 255 (ses_refresh_token_hash r)) (\<lambda>hash.
           bindR (as_varchar 20 (ses_auth_method r)) (\<lambda>method.
             let r1 = r\<lparr>ses_refresh_token_hash := hash, ses_auth_method := method\<rparr>
             in if ses_id r1 \<in> ses_id ` set (sessions d) then Inl (Unique_Violation ''sessions_pkey'')
                else if ses_user_id r1 \<notin> usr_id ` set (users d)
                  then Inl (Foreign_Key_Violation ''sessions_user_id_fkey'')
                else Inr r1)) of
        Inl e \<Rightarrow> (Inl e, d)
      | Inr r1 \<Rightarrow> (Inr r1, d\<lparr>sessions := sessions d @ [r1]\<rparr>))"

text \<open>\<open>UPDATE sessions SET is_active = FALSE WHERE ...\<close>.\<close>

definition deactivate_if :: "(session_row \<Rightarrow> bool) \<Rightarrow> session_row \<Rightarrow> session_row" where
  "deactivate_if P r = (if P r then r\<lparr>ses_is_active := False\<rparr> else r)"

definition update_sessions_inactive :: "(session_row \<Rightarrow> bool) \<Rightarrow> unit statement" where
  "update_sessions_inactive P now d =
     (Inr (), d\<lparr>sessions := map (deactivate_if P) (sessions d)\<rparr>)"

definition update_session_inactive :: "uuid \<Rightarrow> unit statement" where
  "update_session_inactive sid = update_sessions_inactive (\<lambda>r. ses_id r = sid)"

definition update_user_sessions_inactive :: "uuid \<Rightarrow> unit statement" where
  "update_user_sessions_inactive uid =
     update_sessions_inactive (\<lambda>r. ses_user_id r = uid \<and> ses_is_active r)"

definition insert_action_row :: "action_row \<Rightarrow> action_row statement" where
  "insert_action_row r now d =
     (case bindR (as_varchar 20 (act_event_type r)) (\<lambda>event_type.
           bindR (as_varchar 50 (act_auth_method r)) (\<lambda>method.
             let r1 = r\<lparr>act_event_type := event_type, act_auth_method := method\<rparr>
             in if act_id r1 \<in> act_id ` set (user_actions d) then Inl (Unique_Violation ''user_actions_pkey'')
                else if act_user_id r1 \<notin> usr_id ` set (users d)
                  then Inl (Foreign_Key_Violation ''user_actions_user_id_fkey'')
                else if act_session_id r1 \<notin> insert None (Some ` ses_id ` set (sessions d))
                  then Inl (Foreign_Key_Violation ''user_actions_session_id_fkey'')
                else Inr r1)) of
        Inl e \<Rightarrow> (Inl e, d)
      | Inr r1 \<Rightarrow> (Inr r1, d\<lparr>user_actions := user_actions d @ [r1]\<rparr>))"


section \<open>Statements on profiles, roles and the revocation outbox\<close>

text \<open>The row of a key replaced, or a new row appended.\<close>

definition upsert_row :: "('a \<Rightarrow> 'k) \<Rightarrow> 'a \<Rightarrow> 'a list \<Rightarrow> 'a list" where
  "upsert_row key r rows =
     (if key r \<in> key ` set rows then map (\<lambda>x. if key x = key r then r else x) rows
      else rows @ [r])"

definition select_profile :: "uuid \<Rightarrow> profile_row option statement" where
  "select_profile uid now d = (Inr (find (\<lambda>r. prf_user_id r = uid) (user_profiles d)), d)"

text \<open>\<open>INSERT ... ON CONFLICT (user_id) DO UPDATE SET ... = EXCLUDED...\<close>.\<close>

definition upsert_profile :: "profile_row \<Rightarrow> unit statement" where
  "upsert_profile r now d =
     (case bindR (transposeR (as_varchar 500) (prf_avatar_url r)) (\<lambda>avatar_url.
           bindR (transposeR as_text (prf_bio r)) (\<lambda>bio.
             if prf_user_id r \<notin> usr_id ` set (users d)
             then Inl (Foreign_Key_Violation ''user_profiles_user_id_fkey'')
             else Inr (r\<lparr>prf_avatar_url := avatar_url, prf_bio := bio\<rparr>))) of
        Inl e \<Rightarrow> (Inl e, d)
      | Inr r1 \<Rightarrow>
          (Inr (), d\<lparr>user_profiles := upsert_row prf_user_id r1 (user_profiles d)\<rparr>))"

definition select_role :: "uuid \<Rightarrow> string option statement" where
  "select_role uid now d =
     (Inr (map_option rol_role (find (\<lambda>r. rol_user_id r = uid) (user_roles d))), d)"

definition select_roles_any :: "uuid list \<Rightarrow> (uuid \<times> string) list statement" where
  "select_roles_any uids now d =
     (Inr (map (\<lambda>r. (rol_user_id r, rol_role r))
             (filter (\<lambda>r. rol_user_id r \<in> set uids) (user_roles d))), d)"

definition upsert_role :: "uuid \<Rightarrow> string \<Rightarrow> unit statement" where
  "upsert_role uid role now d =
     (case bindR (as_varchar 20 role) (\<lambda>role.
             if role \<notin> {''user'', ''admin''} then Inl (Check_Violation ''user_roles_role_check'')
             else if uid \<notin> usr_id ` set (users d)
               then Inl (Foreign_Key_Violation ''user_roles_user_id_fkey'')
             else Inr \<lparr>rol_user_id = uid, rol_role = role, rol_updated_at = now\<rparr>) of
        Inl e \<Rightarrow> (Inl e, d)
      | Inr r1 \<Rightarrow>
          (Inr (), d\<lparr>user_roles := upsert_row rol_user_id r1 (user_roles d)\<rparr>))"

text \<open>
  \<open>INSERT INTO access_token_revocation_outbox ... ON CONFLICT (jti) DO NOTHING\<close>.  The
  largest TIMESTAMPTZ is just below the end of the year 294276.
\<close>

definition pg_end_timestamp :: time where
  "pg_end_timestamp = 9224318016000000000"

definition insert_outbox :: "uuid \<Rightarrow> int \<Rightarrow> unit statement" where
  "insert_outbox jti ttl_secs now d =
     (if now + secs ttl_secs \<ge> pg_end_timestamp then (Inl Timestamp_Out_Of_Range, d)
      else if ttl_secs < 0 then (Inl (Check_Violation ''access_token_revocation_outbox_ttl_secs_check''), d)
      else if jti \<in> out_jti ` set (outbox d) then (Inr (), d)
      else (Inr (), d\<lparr>outbox := outbox d @
              [\<lparr>out_jti = jti, out_ttl_secs = ttl_secs, out_created_at = now,
                out_expires_at = now + secs ttl_secs\<rparr>]\<rparr>))"

definition delete_outbox_expired :: "unit statement" where
  "delete_outbox_expired now d =
     (Inr (), d\<lparr>outbox := filter (\<lambda>r. \<not> out_expires_at r \<le> now) (outbox d)\<rparr>)"

definition select_outbox_batch :: "nat \<Rightarrow> (uuid \<times> int) list statement" where
  "select_outbox_batch limit now d =
     (Inr (map (\<lambda>r. (out_jti r, out_ttl_secs r)) (take limit (sort_key out_created_at (outbox d)))), d)"

definition delete_outbox_any :: "uuid list \<Rightarrow> unit statement" where
  "delete_outbox_any jtis now d =
     (Inr (), d\<lparr>outbox := filter (\<lambda>r. out_jti r \<notin> set jtis) (outbox d)\<rparr>)"


section \<open>The schema's invariant\<close>

definition unique_by :: "('a \<Rightarrow> 'k) \<Rightarrow> 'a list \<Rightarrow> bool" where
  "unique_by key rows \<longleftrightarrow> distinct (map key rows)"

definition db_wf :: "database \<Rightarrow> bool" where
  "db_wf d \<longleftrightarrow>
     unique_by usr_id (users d) \<and> unique_by usr_email (users d) \<and>
     unique_by usr_username (filter (\<lambda>r. usr_username r \<noteq> None) (users d)) \<and>
     unique_by ses_id (sessions d) \<and> ses_user_id ` set (sessions d) \<subseteq> usr_id ` set (users d) \<and>
     unique_by act_id (user_actions d) \<and>
     act_user_id ` set (user_actions d) \<subseteq> usr_id ` set (users d) \<and>
     act_session_id ` set (user_actions d) \<subseteq> insert None (Some ` ses_id ` set (sessions d)) \<and>
     unique_by prf_user_id (user_profiles d) \<and>
     prf_user_id ` set (user_profiles d) \<subseteq> usr_id ` set (users d) \<and>
     unique_by rol_user_id (user_roles d) \<and>
     rol_user_id ` set (user_roles d) \<subseteq> usr_id ` set (users d) \<and>
     rol_role ` set (user_roles d) \<subseteq> {''user'', ''admin''} \<and>
     unique_by out_jti (outbox d) \<and>
     (\<forall>r \<in> set (outbox d). 0 \<le> out_ttl_secs r \<and>
        out_expires_at r = out_created_at r + secs (out_ttl_secs r))"

text \<open>The contract of a statement: it keeps the invariant, and it changes nothing when it
  fails.\<close>

locale db_statement =
  fixes stmt :: "'a statement"
  assumes stmt_wf: "db_wf d \<Longrightarrow> db_wf (snd (stmt now d))"
    and stmt_atomic: "fst (stmt now d) = Inl e \<Longrightarrow> snd (stmt now d) = d"
begin

lemma pg_run_wf: "db_wf d \<Longrightarrow> db_wf (snd (pg_run link now stmt d))"
  by (cases link) (simp_all add: stmt_wf)

lemma stmtE_wf: "db_wf (db w) \<Longrightarrow> db_wf (db (snd (stmtE E stmt w)))"
  using pg_run_wf [of "db w"] by (simp add: stmtE_def case_prod_beta)

lemma txstmtE_wf: "db_wf d \<Longrightarrow> db_wf (fst (snd (txstmtE E stmt (d, w))))"
  by (auto simp: txstmtE_def stmt_wf case_prod_beta split: pg_link.split)

end

lemma unique_by_append: "unique_by key (xs @ [x]) \<longleftrightarrow> unique_by key xs \<and> key x \<notin> key ` set xs"
  by (auto simp: unique_by_def)

lemma unique_by_map:
  "(\<And>x. key (f x) = key x) \<Longrightarrow> unique_by key (map f xs) = unique_by key xs"
  by (simp add: unique_by_def comp_def)

lemma unique_by_filter: "unique_by key xs \<Longrightarrow> unique_by key (filter P xs)"
  by (simp add: unique_by_def distinct_map_filter)

text \<open>An insertion either fails and changes nothing, or appends one row that meets the
  table's constraints.\<close>

lemma insert_user_cases:
  "(\<exists>e. insert_user r now d = (Inl e, d)) \<or>
   (\<exists>r1. insert_user r now d = (Inr r1, d\<lparr>users := users d @ [r1]\<rparr>) \<and>
      usr_id r1 = usr_id r \<and> usr_id r1 \<notin> usr_id ` set (users d) \<and>
      (usr_username r1 = None \<or> usr_username r1 \<notin> usr_username ` set (users d)) \<and>
      usr_email r1 \<notin> usr_email ` set (users d) \<and>
      usr_created_at r1 = usr_created_at r \<and> usr_updated_at r1 = usr_updated_at r)"
  unfolding insert_user_def bindR_def Let_def by (simp split: sum.split if_split)

lemma insert_session_cases:
  "(\<exists>e. insert_session_row r now d = (Inl e, d)) \<or>
   (\<exists>r1. insert_session_row r now d = (Inr r1, d\<lparr>sessions := sessions d @ [r1]\<rparr>) \<and>
      ses_id r1 = ses_id r \<and> ses_user_id r1 = ses_user_id r \<and>
      ses_expires_at r1 = ses_expires_at r \<and> ses_is_active r1 = ses_is_active r \<and>
      ses_created_at r1 = ses_created_at r \<and>
      ses_id r1 \<notin> ses_id ` set (sessions d) \<and> ses_user_id r1 \<in> usr_id ` set (users d))"
  unfolding insert_session_row_def bindR_def Let_def by (simp split: sum.split if_split)

lemma insert_action_cases:
  "(\<exists>e. insert_action_row r now d = (Inl e, d)) \<or>
   (\<exists>r1. insert_action_row r now d = (Inr r1, d\<lparr>user_actions := user_actions d @ [r1]\<rparr>) \<and>
      act_id r1 = act_id r \<and> act_user_id r1 = act_user_id r \<and>
      act_session_id r1 = act_session_id r \<and>
      act_id r1 \<notin> act_id ` set (user_actions d) \<and> act_user_id r1 \<in> usr_id ` set (users d) \<and>
      act_session_id r1 \<in> insert None (Some ` ses_id ` set (sessions d)))"
  unfolding insert_action_row_def bindR_def Let_def by (simp split: sum.split if_split)

interpretation insert_user_stmt: db_statement "insert_user r"
  for r
proof
  fix d now
  show "db_wf (snd (insert_user r now d))" if "db_wf d"
    using insert_user_cases [of r now d] that
    by (elim disjE exE conjE) (simp_all add: db_wf_def unique_by_append, auto)
  show "snd (insert_user r now d) = d" if "fst (insert_user r now d) = Inl e" for e
    using insert_user_cases [of r now d] that by auto
qed

interpretation insert_session_stmt: db_statement "insert_session_row r"
  for r
proof
  fix d now
  show "db_wf (snd (insert_session_row r now d))" if "db_wf d"
    using insert_session_cases [of r now d] that
    by (elim disjE exE conjE) (simp_all add: db_wf_def unique_by_append, auto)
  show "snd (insert_session_row r now d) = d" if "fst (insert_session_row r now d) = Inl e" for e
    using insert_session_cases [of r now d] that by auto
qed

interpretation insert_action_stmt: db_statement "insert_action_row r"
  for r
proof
  fix d now
  show "db_wf (snd (insert_action_row r now d))" if "db_wf d"
    using insert_action_cases [of r now d] that
    by (elim disjE exE conjE) (simp_all add: db_wf_def unique_by_append)
  show "snd (insert_action_row r now d) = d" if "fst (insert_action_row r now d) = Inl e" for e
    using insert_action_cases [of r now d] that by auto
qed

lemma deactivate_if_simps [simp]:
  "ses_id (deactivate_if P r) = ses_id r"
  "ses_user_id (deactivate_if P r) = ses_user_id r"
  "ses_refresh_token_hash (deactivate_if P r) = ses_refresh_token_hash r"
  "ses_expires_at (deactivate_if P r) = ses_expires_at r"
  "ses_created_at (deactivate_if P r) = ses_created_at r"
  "ses_auth_method (deactivate_if P r) = ses_auth_method r"
  "ses_is_active (deactivate_if P r) = (ses_is_active r \<and> \<not> P r)"
  by (simp_all add: deactivate_if_def)

interpretation inactive_stmt: db_statement "update_sessions_inactive P"
  for P
  by unfold_locales
     (simp_all add: update_sessions_inactive_def db_wf_def unique_by_map image_image)

lemma upsert_row_unique: "unique_by key rows \<Longrightarrow> unique_by key (upsert_row key r rows)"
  by (auto simp: upsert_row_def unique_by_append intro: unique_by_map [THEN iffD2])

lemma set_upsert_row: "set (upsert_row key r rows) = insert r {x \<in> set rows. key x \<noteq> key r}"
  by (auto simp: upsert_row_def rev_image_eqI)

lemma find_upsert_row:
  "find (\<lambda>x. key x = k) (upsert_row key r rows) =
     (if k = key r then Some r else find (\<lambda>x. key x = k) rows)"
proof (induction rows)
  case Nil
  then show ?case by (simp add: upsert_row_def)
next
  case (Cons x rows)
  have "find (\<lambda>x. key x = k) (map (\<lambda>x. if key x = key r then r else x) xs) =
          (if k = key r then (if k \<in> key ` set xs then Some r else None)
           else find (\<lambda>x. key x = k) xs)" for xs
    by (induction xs) auto
  with Cons show ?case by (auto simp: upsert_row_def split: if_splits)
qed

lemma image_upsert_row: "key ` set (upsert_row key r rows) = insert (key r) (key ` set rows)"
  by (auto simp: set_upsert_row)

lemma upsert_profile_cases:
  "(\<exists>e. upsert_profile r now d = (Inl e, d)) \<or>
   (\<exists>r1. upsert_profile r now d =
           (Inr (), d\<lparr>user_profiles := upsert_row prf_user_id r1 (user_profiles d)\<rparr>) \<and>
      prf_user_id r1 = prf_user_id r \<and> prf_user_id r \<in> usr_id ` set (users d))"
  unfolding upsert_profile_def bindR_def
  by (simp split: sum.split if_split) (intro impI allI exI conjI, rule refl, simp)

lemma upsert_role_cases:
  "(\<exists>e. upsert_role uid role now d = (Inl e, d)) \<or>
   (\<exists>r1. upsert_role uid role now d =
           (Inr (), d\<lparr>user_roles := upsert_row rol_user_id r1 (user_roles d)\<rparr>) \<and>
      rol_user_id r1 = uid \<and> rol_role r1 \<in> {''user'', ''admin''} \<and> uid \<in> usr_id ` set (users d))"
  unfolding upsert_role_def bindR_def
  by (simp split: sum.split if_split) (intro impI allI conjI; intro impI exI conjI, rule refl; simp)

interpretation upsert_profile_stmt: db_statement "upsert_profile r"
  for r
proof
  fix d now
  show "db_wf (snd (upsert_profile r now d))" if "db_wf d"
    using upsert_profile_cases [of r now d] that
    by (elim disjE exE conjE) (simp_all add: db_wf_def upsert_row_unique image_upsert_row)
  show "snd (upsert_profile r now d) = d" if "fst (upsert_profile r now d) = Inl e" for e
    using upsert_profile_cases [of r now d] that by auto
qed

interpretation upsert_role_stmt: db_statement "upsert_role uid role"
  for uid role
proof
  fix d now
  have roles: "rol_role ` set (upsert_row rol_user_id r1 rows) \<subseteq> S"
    if "rol_role r1 \<in> S" "rol_role ` set rows \<subseteq> S" for r1 rows S
    using that by (auto simp: set_upsert_row)
  show "db_wf (snd (upsert_role uid role now d))" if "db_wf d"
    using upsert_role_cases [of uid role now d] that
    by (elim disjE exE conjE) (simp_all add: db_wf_def upsert_row_unique image_upsert_row roles)
  show "snd (upsert_role uid role now d) = d" if "fst (upsert_role uid role now d) = Inl e" for e
    using upsert_role_cases [of uid role now d] that by auto
qed

interpretation insert_outbox_stmt: db_statement "insert_outbox jti ttl"
  for jti ttl
  by unfold_locales
     (simp_all add: insert_outbox_def db_wf_def unique_by_append split: if_splits)

interpretation delete_outbox_expired_stmt: db_statement delete_outbox_expired
  by unfold_locales (simp_all add: delete_outbox_expired_def db_wf_def unique_by_filter)

interpretation delete_outbox_any_stmt: db_statement "delete_outbox_any jtis"
  for jtis
  by unfold_locales (simp_all add: delete_outbox_any_def db_wf_def unique_by_filter)

end
