(* ===== verification/User_Repo.thy ===== *)
theory User_Repo
  imports Database
begin

text \<open>
  The PostgreSQL adapters of the auth crate: \<open>postgres_user_repo.rs\<close>,
  \<open>postgres_session_repo.rs\<close>, \<open>postgres_user_directory.rs\<close> and \<open>audit_event_handler.rs\<close>, over
  the statements of \<open>Database\<close>; the \<open>UserRepository\<close> port they implement, and the contract
  the use cases rely on.
\<close>

section \<open>Rows and entities\<close>

definition into_user :: "user_row \<Rightarrow> auth_error + user" where
  "into_user r =
     bindR (map_err (\<lambda>e. InternalError (domain_error_display e)) (Email_new (usr_email r))) (\<lambda>email.
     bindR (map_err InternalError (auth_provider_try_from (usr_auth_provider r))) (\<lambda>provider.
     bindR (map_err InternalError (transposeR HashedPassword_new (usr_password_hash r))) (\<lambda>hash.
       Inr \<lparr>u_id = usr_id r, u_username = usr_username r, u_email = email,
            u_display_name = usr_display_name r, u_password_hash = hash, u_auth_provider = provider,
            u_created_at = usr_created_at r, u_updated_at = usr_updated_at r\<rparr>)))"

definition into_user_action :: "action_row \<Rightarrow> auth_error + user_action" where
  "into_user_action r =
     bindR (map_err InternalError (event_type_try_from (act_event_type r))) (\<lambda>event_type.
     bindR (map_err InternalError (auth_method_try_from (act_auth_method r))) (\<lambda>auth_method.
       Inr \<lparr>ua_id = act_id r, ua_user_id = act_user_id r, ua_session_id = act_session_id r,
            ua_event_type = event_type, ua_auth_method = auth_method, ua_created_at = act_created_at r\<rparr>))"

definition into_session :: "session_row \<Rightarrow> auth_error + session" where
  "into_session r =
     bindR (map_err InternalError (HashedPassword_new (ses_refresh_token_hash r))) (\<lambda>hash.
     bindR (map_err InternalError (auth_method_try_from (ses_auth_method r))) (\<lambda>auth_method.
       Inr \<lparr>s_id = ses_id r, s_user_id = ses_user_id r, s_refresh_token_hash = hash,
            s_expires_at = ses_expires_at r, s_is_active = ses_is_active r,
            s_created_at = ses_created_at r, s_auth_method = auth_method\<rparr>))"

text \<open>The row the adapters insert for a new session.\<close>

definition row_of_new_session :: "time \<Rightarrow> new_session \<Rightarrow> session_row" where
  "row_of_new_session now ns =
     \<lparr>ses_id = ns_id ns, ses_user_id = ns_user_id ns,
      ses_refresh_token_hash = hash_as_str (ns_refresh_token_hash ns), ses_expires_at = ns_expires_at ns,
      ses_is_active = True, ses_created_at = now, ses_auth_method = auth_method_as_str (ns_auth_method ns)\<rparr>"


section \<open>Statements in the adapters' error type\<close>

definition queryE :: "('e) env_scheme \<Rightarrow> 'a statement \<Rightarrow> ('z world_scheme, auth_error, 'a) eff" where
  "queryE E f = map_errE (\<lambda>e. InternalError (pg_show E e)) (stmtE E f)"

definition tx_queryE ::
  "('e) env_scheme \<Rightarrow> 'a statement \<Rightarrow> (database \<times> 'z world_scheme, auth_error, 'a) eff" where
  "tx_queryE E f = map_errE (\<lambda>e. InternalError (pg_show E e)) (txstmtE E f)"

text \<open>\<open>Utc::now()\<close> inside a transaction.\<close>

definition tx_nowE :: "('e) env_scheme \<Rightarrow> (database \<times> 'z world_scheme, 'err, time) eff" where
  "tx_nowE E s = (case s of (d, w) \<Rightarrow> (Inr (utc E (tick w) 0), d, next_tick w))"

text \<open>\<open>for x in xs { f(x).await?; }\<close>.\<close>

fun for_each :: "('a \<Rightarrow> ('w, 'e, unit) eff) \<Rightarrow> 'a list \<Rightarrow> ('w, 'e, unit) eff" where
  "for_each f [] = returnE ()"
| "for_each f (x # xs) = bindE (f x) (\<lambda>_. for_each f xs)"

text \<open>\<open>pool.begin()\<close>, the statements of the body, \<open>tx.commit()\<close>; an early return drops the
  transaction, which rolls it back.\<close>

definition transaction ::
  "('e) env_scheme \<Rightarrow> (database \<times> 'z world_scheme, auth_error, unit) eff
   \<Rightarrow> ('z world_scheme, auth_error, unit) eff" where
  "transaction E body =
     bindE (map_errE (\<lambda>e. InternalError (pg_show E e)) (beginE E)) (\<lambda>_ w.
       (case body (db w, w) of
          (Inl e, d, w1) \<Rightarrow> (Inl e, w1)
        | (Inr x, d, w1) \<Rightarrow> map_errE (\<lambda>e. InternalError (pg_show E e)) (commitE E d) w1))"


section \<open>The user repository\<close>

definition load_aggregate :: "('e) env_scheme \<Rightarrow> user \<Rightarrow> ('z world_scheme, auth_error, user_aggregate) eff" where
  "load_aggregate E user =
     bindE (queryE E (select_sessions_by_user (u_id user))) (\<lambda>rows.
     bindE (liftE (collectR into_session rows)) (\<lambda>ss.
     returnE (UserAggregate_new user ss)))"

definition find_by_username :: "('e) env_scheme \<Rightarrow> string \<Rightarrow> ('z world_scheme, auth_error, user option) eff" where
  "find_by_username E username =
     bindE (queryE E (select_user_by_username username)) (\<lambda>row. liftE (transposeR into_user row))"

definition find_by_email :: "('e) env_scheme \<Rightarrow> string \<Rightarrow> ('z world_scheme, auth_error, user option) eff" where
  "find_by_email E email =
     bindE (queryE E (select_user_by_email email)) (\<lambda>row. liftE (transposeR into_user row))"

definition find_by_id :: "('e) env_scheme \<Rightarrow> uuid \<Rightarrow> ('z world_scheme, auth_error, user option) eff" where
  "find_by_id E uid =
     bindE (queryE E (select_user_by_id uid)) (\<lambda>row. liftE (transposeR into_user row))"

definition create_user :: "('e) env_scheme \<Rightarrow> new_user \<Rightarrow> ('z world_scheme, auth_error, user) eff" where
  "create_user E user =
     bindE (nowE E) (\<lambda>now.
     bindE (now_v7E E) (\<lambda>uid.
     bindE (queryE E (insert_user
        \<lparr>usr_id = uid, usr_username = nu_username user, usr_email = email_as_str (nu_email user),
         usr_display_name = nu_display_name user,
         usr_password_hash = map_option hash_as_str (nu_password_hash user),
         usr_auth_provider = auth_provider_as_str (nu_auth_provider user),
         usr_created_at = now, usr_updated_at = now\<rparr>)) (\<lambda>row.
     liftE (into_user row))))"

definition create_user_action ::
  "('e) env_scheme \<Rightarrow> new_user_action \<Rightarrow> ('z world_scheme, auth_error, user_action) eff" where
  "create_user_action E action =
     bindE (now_v7E E) (\<lambda>aid.
     bindE (nowE E) (\<lambda>now.
     bindE (queryE E (insert_action_row
        \<lparr>act_id = aid, act_user_id = na_user_id action, act_session_id = na_session_id action,
         act_event_type = event_type_as_str (na_event_type action),
         act_auth_method = auth_method_as_str (na_auth_method action), act_created_at = now\<rparr>)) (\<lambda>row.
     liftE (into_user_action row))))"

definition with_sessions ::
  "('e) env_scheme \<Rightarrow> user option \<Rightarrow> ('z world_scheme, auth_error, user_aggregate option) eff" where
  "with_sessions E user_opt =
     (case user_opt of
        Some user \<Rightarrow> bindE (load_aggregate E user) (\<lambda>ag. returnE (Some ag))
      | None \<Rightarrow> returnE None)"

definition find_aggregate_by_id ::
  "('e) env_scheme \<Rightarrow> uuid \<Rightarrow> ('z world_scheme, auth_error, user_aggregate option) eff" where
  "find_aggregate_by_id E uid = bindE (find_by_id E uid) (with_sessions E)"

definition find_aggregate_by_username ::
  "('e) env_scheme \<Rightarrow> string \<Rightarrow> ('z world_scheme, auth_error, user_aggregate option) eff" where
  "find_aggregate_by_username E username = bindE (find_by_username E username) (with_sessions E)"

definition find_aggregate_by_email ::
  "('e) env_scheme \<Rightarrow> string \<Rightarrow> ('z world_scheme, auth_error, user_aggregate option) eff" where
  "find_aggregate_by_email E email = bindE (find_by_email E email) (with_sessions E)"

definition insert_session ::
  "('e) env_scheme \<Rightarrow> new_session \<Rightarrow> (database \<times> 'z world_scheme, auth_error, unit) eff" where
  "insert_session E ns =
     bindE (tx_nowE E) (\<lambda>now.
     bindE (tx_queryE E (insert_session_row (row_of_new_session now ns))) (\<lambda>_. returnE ()))"

definition invalidated_ids :: "user_aggregate \<Rightarrow> uuid list" where
  "invalidated_ids ag = map s_id (filter (\<lambda>s. \<not> s_is_active s) (ag_sessions ag))"

definition save_aggregate ::
  "('e) env_scheme \<Rightarrow> user_aggregate \<Rightarrow> new_session list \<Rightarrow> ('z world_scheme, auth_error, unit) eff" where
  "save_aggregate E ag new_sessions =
     transaction E
       (bindE (for_each (insert_session E) new_sessions) (\<lambda>_.
        for_each (\<lambda>sid. tx_queryE E (update_session_inactive sid)) (invalidated_ids ag)))"


section \<open>The session repository\<close>

definition session_create :: "('e) env_scheme \<Rightarrow> new_session \<Rightarrow> ('z world_scheme, auth_error, session) eff" where
  "session_create E ns =
     bindE (nowE E) (\<lambda>now.
     bindE (queryE E (insert_session_row (row_of_new_session now ns))) (\<lambda>row.
     liftE (into_session row)))"

definition session_find_by_id ::
  "('e) env_scheme \<Rightarrow> uuid \<Rightarrow> ('z world_scheme, auth_error, session option) eff" where
  "session_find_by_id E sid =
     bindE (queryE E (select_session_by_id sid)) (\<lambda>row. liftE (transposeR into_session row))"

definition find_active_by_user_id ::
  "('e) env_scheme \<Rightarrow> uuid \<Rightarrow> ('z world_scheme, auth_error, session list) eff" where
  "find_active_by_user_id E uid =
     bindE (queryE E (select_active_sessions_by_user uid)) (\<lambda>rows. liftE (collectR into_session rows))"

definition session_invalidate :: "('e) env_scheme \<Rightarrow> uuid \<Rightarrow> ('z world_scheme, auth_error, unit) eff" where
  "session_invalidate E sid = queryE E (update_session_inactive sid)"

definition sessions_for_user ::
  "('e) env_scheme \<Rightarrow> uuid \<Rightarrow> ('z world_scheme, auth_error, session list) eff" where
  "sessions_for_user E uid =
     bindE (queryE E (select_sessions_by_user uid)) (\<lambda>rows. liftE (collectR into_session rows))"

definition invalidate_all_for_user :: "('e) env_scheme \<Rightarrow> uuid \<Rightarrow> ('z world_scheme, auth_error, unit) eff" where
  "invalidate_all_for_user E uid = queryE E (update_user_sessions_inactive uid)"


section \<open>The user directory\<close>

record user_summary =
  us_id :: uuid
  us_username :: "string option"
  us_email :: string
  us_display_name :: string
  us_auth_provider :: string
  us_created_at :: time
  us_updated_at :: time

definition into_summary :: "user_row \<Rightarrow> user_summary" where
  "into_summary r =
     \<lparr>us_id = usr_id r, us_username = usr_username r, us_email = usr_email r,
      us_display_name = usr_display_name r, us_auth_provider = usr_auth_provider r,
      us_created_at = usr_created_at r, us_updated_at = usr_updated_at r\<rparr>"

definition dir_queryE :: "('e) env_scheme \<Rightarrow> 'a statement \<Rightarrow> ('z world_scheme, domain_error, 'a) eff" where
  "dir_queryE E f = map_errE (\<lambda>e. DomainInternal (pg_show E e)) (stmtE E f)"

definition get_user_summary ::
  "('e) env_scheme \<Rightarrow> uuid \<Rightarrow> ('z world_scheme, domain_error, user_summary option) eff" where
  "get_user_summary E uid =
     bindE (dir_queryE E (select_user_by_id uid)) (\<lambda>row. returnE (map_option into_summary row))"

definition list_user_summaries ::
  "('e) env_scheme \<Rightarrow> u32 \<Rightarrow> u64 \<Rightarrow> ('z world_scheme, domain_error, user_summary list) eff" where
  "list_user_summaries E limit offset =
     bindE (liftE (if offset < 2 ^ 63 then Inr (unat offset)
                   else Inl (DomainInternal ''pagination offset exceeds PostgreSQL range''))) (\<lambda>off.
     bindE (dir_queryE E (select_users_page (unat limit) off)) (\<lambda>rows.
     returnE (map into_summary rows)))"

definition count_users :: "('e) env_scheme \<Rightarrow> ('z world_scheme, domain_error, u64) eff" where
  "count_users E = bindE (dir_queryE E count_users_stmt) (\<lambda>n. returnE (of_int n))"


section \<open>The audit handler\<close>

definition insert_action ::
  "('e) env_scheme \<Rightarrow> uuid \<Rightarrow> uuid option \<Rightarrow> event_type \<Rightarrow> auth_method \<Rightarrow> ('z world_scheme, pg_error, unit) eff" where
  "insert_action E user_id session_id event_type auth_method =
     bindE (now_v7E E) (\<lambda>aid.
     bindE (nowE E) (\<lambda>now.
     bindE (stmtE E (insert_action_row
        \<lparr>act_id = aid, act_user_id = user_id, act_session_id = session_id,
         act_event_type = event_type_as_str event_type,
         act_auth_method = auth_method_as_str auth_method, act_created_at = now\<rparr>)) (\<lambda>_. returnE ())))"

text \<open>A failed insertion is logged and dropped.\<close>

fun handle_event :: "('e) env_scheme \<Rightarrow> event \<Rightarrow> 'z world_scheme \<Rightarrow> 'z world_scheme" where
  "handle_event E (UserLoggedIn e) w =
     snd (insert_action E (li_user_id e) (Some (li_session_id e)) Login (li_method e) w)"
| "handle_event E (UserLoggedOut e) w =
     snd (insert_action E (lo_user_id e) (Some (lo_session_id e)) Logout (lo_method e) w)"
| "handle_event E (SessionRefreshed e) w =
     snd (insert_action E (sr_user_id e) (Some (sr_session_id e)) Refresh (sr_method e) w)"
| "handle_event E (UserCreated e) w = w"


section \<open>The repository port\<close>

record 'w user_repository =
  ur_find_by_username :: "string \<Rightarrow> ('w, auth_error, user option) eff"
  ur_find_by_email :: "string \<Rightarrow> ('w, auth_error, user option) eff"
  ur_find_by_id :: "uuid \<Rightarrow> ('w, auth_error, user option) eff"
  ur_create :: "new_user \<Rightarrow> ('w, auth_error, user) eff"
  ur_create_user_action :: "new_user_action \<Rightarrow> ('w, auth_error, user_action) eff"
  ur_find_aggregate_by_id :: "uuid \<Rightarrow> ('w, auth_error, user_aggregate option) eff"
  ur_find_aggregate_by_username :: "string \<Rightarrow> ('w, auth_error, user_aggregate option) eff"
  ur_find_aggregate_by_email :: "string \<Rightarrow> ('w, auth_error, user_aggregate option) eff"
  ur_save_aggregate :: "user_aggregate \<Rightarrow> new_session list \<Rightarrow> ('w, auth_error, unit) eff"

definition postgres_user_repo :: "('e) env_scheme \<Rightarrow> 'z world_scheme user_repository" where
  "postgres_user_repo E =
     \<lparr>ur_find_by_username = find_by_username E, ur_find_by_email = find_by_email E,
      ur_find_by_id = find_by_id E, ur_create = create_user E,
      ur_create_user_action = create_user_action E,
      ur_find_aggregate_by_id = find_aggregate_by_id E,
      ur_find_aggregate_by_username = find_aggregate_by_username E,
      ur_find_aggregate_by_email = find_aggregate_by_email E,
      ur_save_aggregate = save_aggregate E\<rparr>"


section \<open>What a database stores\<close>

text \<open>The users and sessions a database stands for, and the databases whose rows are all
  readable.\<close>

definition known :: "database \<Rightarrow> user set" where
  "known d = {u. \<exists>r \<in> set (users d). into_user r = Inr u}"

definition stored :: "database \<Rightarrow> session set" where
  "stored d = {s. \<exists>r \<in> set (sessions d). into_session r = Inr s}"

definition readable :: "database \<Rightarrow> bool" where
  "readable d \<longleftrightarrow>
     db_wf d \<and> (\<forall>r \<in> set (users d). \<exists>u. into_user r = Inr u) \<and>
     (\<forall>r \<in> set (sessions d). \<exists>s. into_session r = Inr s)"

text \<open>The hash of a new session fits its column.\<close>

definition storable :: "new_session \<Rightarrow> bool" where
  "storable ns \<longleftrightarrow>
     hash_as_str (ns_refresh_token_hash ns) \<noteq> [] \<and> char_count (hash_as_str (ns_refresh_token_hash ns)) \<le> 255"

text \<open>The sessions after an aggregate was saved: the new ones added, those the aggregate has
  invalidated inactive.\<close>

definition saved_sessions :: "user_aggregate \<Rightarrow> session list \<Rightarrow> session set \<Rightarrow> session set" where
  "saved_sessions ag new ss =
     (\<lambda>s. if s_id s \<in> set (invalidated_ids ag) then invalidate s else s) ` (ss \<union> set new)"

definition sessions_of_new :: "time list \<Rightarrow> new_session list \<Rightarrow> session list" where
  "sessions_of_new ts nss = map2 session_of_new ts nss"

definition saved_to :: "user_aggregate \<Rightarrow> new_session list \<Rightarrow> session set \<Rightarrow> session set \<Rightarrow> bool" where
  "saved_to ag nss ss ss' \<longleftrightarrow>
     distinct (map ns_id nss) \<and> ns_id ` set nss \<inter> s_id ` ss = {} \<and>
     (\<exists>ts. length ts = length nss \<and> ss' = saved_sessions ag (sessions_of_new ts nss) ss)"

text \<open>A new user that its constructors let through, and what is kept of them.\<close>

definition creatable :: "new_user \<Rightarrow> bool" where
  "creatable nu \<longleftrightarrow>
     Email_new (email_as_str (nu_email nu)) = Inr (nu_email nu) \<and> nu_password_hash nu \<noteq> Some (HashedPassword [])"

definition created_user :: "new_user \<Rightarrow> user \<Rightarrow> bool" where
  "created_user nu u \<longleftrightarrow>
     u_auth_provider u = nu_auth_provider nu \<and> (u_password_hash u = None \<longleftrightarrow> nu_password_hash nu = None) \<and>
     (char_count (email_as_str (nu_email nu)) \<le> 255 \<longrightarrow> u_email u = nu_email nu)"

text \<open>
  The contract of a user repository over the database: what the finders return is what is
  stored, and \<open>save_aggregate\<close> has its whole effect or none; on success it has it.
\<close>

locale user_store =
  fixes R :: "'z world_scheme user_repository"
    and accepts :: "database \<Rightarrow> bool"
    and users_in :: "database \<Rightarrow> user set"
    and sessions_in :: "database \<Rightarrow> session set"
  assumes by_id:
      "\<lbrakk>accepts (db w); ur_find_aggregate_by_id R uid w = (Inr (Some ag), w')\<rbrakk> \<Longrightarrow>
         ag_user ag \<in> users_in (db w) \<and> u_id (ag_user ag) = uid \<and> ag_pending_events ag = [] \<and>
         distinct (map s_id (ag_sessions ag)) \<and>
         set (ag_sessions ag) = {s \<in> sessions_in (db w). s_user_id s = uid}"
    and by_username:
      "\<lbrakk>accepts (db w); ur_find_aggregate_by_username R name w = (Inr (Some ag), w')\<rbrakk> \<Longrightarrow>
         ag_user ag \<in> users_in (db w) \<and> u_username (ag_user ag) = Some name \<and> ag_pending_events ag = [] \<and>
         distinct (map s_id (ag_sessions ag)) \<and>
         set (ag_sessions ag) = {s \<in> sessions_in (db w). s_user_id s = u_id (ag_user ag)}"
    and by_email:
      "\<lbrakk>accepts (db w); ur_find_aggregate_by_email R email w = (Inr (Some ag), w')\<rbrakk> \<Longrightarrow>
         ag_user ag \<in> users_in (db w) \<and> email_as_str (u_email (ag_user ag)) = email \<and>
         ag_pending_events ag = [] \<and> distinct (map s_id (ag_sessions ag)) \<and>
         set (ag_sessions ag) = {s \<in> sessions_in (db w). s_user_id s = u_id (ag_user ag)}"
    and finders_read_only:
      "db (snd (ur_find_aggregate_by_id R uid w)) = db w"
      "db (snd (ur_find_aggregate_by_username R name w)) = db w"
      "db (snd (ur_find_aggregate_by_email R email w)) = db w"
    and unique_sessions: "accepts d \<Longrightarrow> inj_on s_id (sessions_in d)"
    and create_whole_or_nothing:
      "\<lbrakk>accepts (db w); creatable nu; ur_create R nu w = (ru, w')\<rbrakk> \<Longrightarrow>
         (\<exists>e. ru = Inl e) \<and> db w' = db w \<or>
         (\<exists>u. (ru = Inr u \<or> (\<exists>e. ru = Inl e)) \<and> accepts (db w') \<and> created_user nu u \<and>
              u_id u \<notin> u_id ` users_in (db w) \<and>
              users_in (db w') = insert u (users_in (db w)) \<and> sessions_in (db w') = sessions_in (db w))"
    and save_whole_or_nothing:
      "\<lbrakk>accepts (db w); \<forall>ns \<in> set nss. storable ns; ur_save_aggregate R ag nss w = (r, w')\<rbrakk> \<Longrightarrow>
         (\<exists>e. r = Inl e) \<and> db w' = db w \<or>
         accepts (db w') \<and> users_in (db w') = users_in (db w) \<and>
         saved_to ag nss (sessions_in (db w)) (sessions_in (db w'))"


section \<open>Rows of the model's own making are readable\<close>

lemma into_session_new:
  "storable ns \<Longrightarrow> into_session (row_of_new_session t ns) = Inr (session_of_new t ns)"
  by (simp add: into_session_def row_of_new_session_def session_of_new_def storable_def
        HashedPassword_new_def method_text.try_from_as_str)

lemma into_session_eq_Inr:
  "into_session r = Inr s \<longleftrightarrow>
     HashedPassword_new (ses_refresh_token_hash r) = Inr (s_refresh_token_hash s) \<and>
     auth_method_try_from (ses_auth_method r) = Inr (s_auth_method s) \<and>
     s_id s = ses_id r \<and> s_user_id s = ses_user_id r \<and> s_expires_at s = ses_expires_at r \<and>
     s_is_active s = ses_is_active r \<and> s_created_at s = ses_created_at r"
  by (cases s) (auto simp: into_session_def bindR_eq_Inr)

lemma into_session_fields:
  assumes "into_session r = Inr s"
  shows "s_id s = ses_id r" and "s_user_id s = ses_user_id r" and "s_is_active s = ses_is_active r"
  using assms by (simp_all add: into_session_eq_Inr)

lemma into_session_deactivate:
  "into_session r = Inr s \<Longrightarrow> into_session (deactivate_if P r) = Inr (if P r then invalidate s else s)"
  by (auto simp: into_session_eq_Inr deactivate_if_def)

lemma into_user_eq_Inr:
  "into_user r = Inr u \<longleftrightarrow>
     Email_new (usr_email r) = Inr (u_email u) \<and>
     auth_provider_try_from (usr_auth_provider r) = Inr (u_auth_provider u) \<and>
     transposeR HashedPassword_new (usr_password_hash r) = Inr (u_password_hash u) \<and>
     u_id u = usr_id r \<and> u_username u = usr_username r \<and> u_display_name u = usr_display_name r \<and>
     u_created_at u = usr_created_at r \<and> u_updated_at u = usr_updated_at r"
  by (cases u) (auto simp: into_user_def bindR_eq_Inr)


section \<open>Queries\<close>

lemma queryE_Inr:
  assumes "queryE E f w = (Inr x, w')"
  shows "f (pg_now E (tick w)) (db w) = (Inr x, db w')"
  using assms
  by (cases "pg_link_at E (tick w)")
     (auto simp: queryE_def map_errE_def stmtE_def split: prod.splits)

text \<open>Operations that leave the database alone, and how they compose.\<close>

definition read_only :: "('z world_scheme, 'e, 'a) eff \<Rightarrow> bool" where
  "read_only m \<longleftrightarrow> (\<forall>w. db (snd (m w)) = db w)"

lemma read_only_db: "read_only m \<Longrightarrow> db (snd (m w)) = db w"
  by (simp add: read_only_def)

lemma read_onlyD: "read_only m \<Longrightarrow> m w = (r, w') \<Longrightarrow> db w' = db w"
  by (metis read_only_def snd_conv)

lemma read_only_simps [keeps, intro]:
  "read_only (returnE x)"
  "read_only (throwE e)"
  "read_only (liftE r)"
  "read_only (nowE E)"
  "read_only (now_v7E E)"
  by (simp_all add: read_only_def returnE_def throwE_def liftE_def nowE_def now_v7E_def next_tick_def)

lemma read_only_bindE [keeps, intro]:
  "read_only m \<Longrightarrow> (\<And>x. read_only (k x)) \<Longrightarrow> read_only (bindE m k)"
  by (auto simp: read_only_def bindE_def split: prod.split sum.split) (metis snd_conv)+

lemma read_only_map_errE [keeps, intro]: "read_only m \<Longrightarrow> read_only (map_errE f m)"
  by (auto simp: read_only_def map_errE_def split: prod.split) (metis snd_conv)

lemma read_only_stmtE:
  assumes "\<And>now d. snd (f now d) = d"
  shows "read_only (stmtE E f)"
proof -
  have "snd (pg_run l now f d) = d" for l now d
    using assms by (cases l) simp_all
  then show ?thesis by (simp add: read_only_def stmtE_def split: prod.split) (metis snd_conv)
qed

lemma selects_read_only [keeps, simp]:
  "snd (select_user_by_id uid now d) = d"
  "snd (select_user_by_username name now d) = d"
  "snd (select_user_by_email email now d) = d"
  "snd (select_sessions_by_user uid now d) = d"
  "snd (select_active_sessions_by_user uid now d) = d"
  "snd (select_session_by_id sid now d) = d"
  "snd (select_users_page n m now d) = d"
  "snd (count_users_stmt now d) = d"
  "snd (select_profile uid now d) = d"
  "snd (select_role uid now d) = d"
  "snd (select_roles_any uids now d) = d"
  by (simp_all add: select_user_by_id_def select_user_by_username_def select_user_by_email_def
        select_sessions_by_user_def select_active_sessions_by_user_def select_session_by_id_def
        select_users_page_def count_users_stmt_def select_profile_def select_role_def select_roles_any_def
        split: sum.split)

lemma read_only_queryE [keeps, intro]: "(\<And>now d. snd (f now d) = d) \<Longrightarrow> read_only (queryE E f)"
  unfolding queryE_def by (intro read_only_map_errE read_only_stmtE)

lemma load_aggregate_read_only [keeps, intro]: "read_only (load_aggregate E u)"
  unfolding load_aggregate_def by (intro read_only_bindE read_only_simps read_only_queryE) simp

lemma with_sessions_read_only [keeps, intro]: "read_only (with_sessions E u)"
  unfolding with_sessions_def by (cases u) auto

lemma finders_keep_db [keeps, intro]:
  "read_only (find_aggregate_by_id E uid)"
  "read_only (find_aggregate_by_username E name)"
  "read_only (find_aggregate_by_email E email)"
  unfolding find_aggregate_by_id_def find_by_id_def find_aggregate_by_username_def find_by_username_def
    find_aggregate_by_email_def find_by_email_def
  by (intro read_only_bindE read_only_simps read_only_queryE with_sessions_read_only; simp)+

lemma load_aggregate_Inr:
  assumes "load_aggregate E u w = (Inr ag, w')" and "readable (db w)"
  shows "ag_user ag = u" and "ag_pending_events ag = []" and "distinct (map s_id (ag_sessions ag))"
    and "set (ag_sessions ag) = {s \<in> stored (db w). s_user_id s = u_id u}"
proof -
  obtain rows w1 ss where q: "queryE E (select_sessions_by_user (u_id u)) w = (Inr rows, w1)"
    and ss: "list_all2 (\<lambda>r s. into_session r = Inr s) rows ss" and ag: "ag = UserAggregate_new u ss"
    using assms(1) by (auto simp: load_aggregate_def bindE_eq_Inr collectR_eq_Inr simp del: bindE_liftE)
  have rows: "rows = sort_key (\<lambda>r. - ses_created_at r) (filter (\<lambda>r. ses_user_id r = u_id u) (sessions (db w)))"
    using queryE_Inr [OF q] by (auto simp: select_sessions_by_user_def)
  have ids: "map s_id ss = map ses_id rows"
    using ss by (induction rule: list_all2_induct) (simp_all add: into_session_eq_Inr)
  have "set ss = {s. \<exists>r \<in> set rows. into_session r = Inr s}"
    using ss by (induction rule: list_all2_induct) auto
  then show "set (ag_sessions ag) = {s \<in> stored (db w). s_user_id s = u_id u}"
    by (auto simp: ag UserAggregate_new_def rows stored_def into_session_eq_Inr)
  have "distinct (map ses_id (filter (\<lambda>r. ses_user_id r = u_id u) (sessions (db w))))"
    using assms(2) by (simp add: readable_def db_wf_def unique_by_def distinct_map_filter)
  then show "distinct (map s_id (ag_sessions ag))"
    by (simp add: ag UserAggregate_new_def ids rows distinct_map inj_on_def)
  show "ag_user ag = u" "ag_pending_events ag = []"
    by (simp_all add: ag UserAggregate_new_def)
qed

lemma finder_Inr:
  assumes "bindE (bindE (queryE E f) (\<lambda>row. liftE (transposeR into_user row))) (with_sessions E) w
             = (Inr (Some ag), w')"
    and "readable (db w)" and "\<And>now d. snd (f now d) = d"
    and "\<And>now d r. f now d = (Inr (Some r), d) \<Longrightarrow> r \<in> set (users d)"
  shows "\<exists>r. f (pg_now E (tick w)) (db w) = (Inr (Some r), db w) \<and> into_user r = Inr (ag_user ag) \<and>
           ag_user ag \<in> known (db w) \<and> ag_pending_events ag = [] \<and> distinct (map s_id (ag_sessions ag)) \<and>
           set (ag_sessions ag) = {s \<in> stored (db w). s_user_id s = u_id (ag_user ag)}"
proof -
  obtain row w1 u where q: "queryE E f w = (Inr row, w1)" and u: "transposeR into_user row = Inr (Some u)"
    and l: "load_aggregate E u w1 = (Inr ag, w')"
    using assms(1)
    by (auto simp: bindE_eq_Inr with_sessions_def simp del: bindE_liftE split: option.splits)
  have f: "f (pg_now E (tick w)) (db w) = (Inr row, db w)" and w1: "db w1 = db w"
    using queryE_Inr [OF q] assms(3) [of "pg_now E (tick w)" "db w"] by simp_all
  obtain r where r: "row = Some r" "into_user r = Inr u"
    using u by (auto simp: transposeR_def split: option.splits sum.splits)
  have "r \<in> set (users (db w))" using assms(4) f r(1) by simp
  then have "u \<in> known (db w)" using r(2) by (auto simp: known_def)
  then show ?thesis
    using load_aggregate_Inr [OF l] assms(2) f r by (simp add: w1)
qed


section \<open>Saving an aggregate\<close>

lemma tx_queryE_Inr:
  assumes "tx_queryE E f (d, w) = (r, d', w')"
  shows "db w' = db w" and "r = Inr x \<Longrightarrow> f (pg_now E (tick w)) d = (Inr x, d')"
  using assms
  by (auto simp: tx_queryE_def map_errE_def txstmtE_def next_tick_def split: prod.splits pg_link.splits)

text \<open>A text of at most so many characters goes into its column unchanged.\<close>

lemma as_varchar_short: "char_count s \<le> n \<Longrightarrow> as_varchar n s = as_text s"
  unfolding as_varchar_def as_text_def bindR_def by simp

lemma as_text_Inr [simp]: "as_text s = Inr t \<longleftrightarrow> t = s \<and> CHR 0x00 \<notin> set s"
  by (auto simp: as_text_def)

lemma as_varchar_method: "as_varchar 20 (auth_method_as_str m) = Inr (auth_method_as_str m)"
  by (cases m) (simp_all only: auth_method_as_str.simps, code_simp+)

lemma insert_session_Inr:
  assumes "insert_session E ns (d, w) = (r, d', w')" and "storable ns"
  shows "db w' = db w"
    and "r = Inr () \<Longrightarrow> \<exists>t. d' = d\<lparr>sessions := sessions d @ [row_of_new_session t ns]\<rparr> \<and>
           ns_id ns \<notin> ses_id ` set (sessions d) \<and> ns_user_id ns \<in> usr_id ` set (users d)"
proof -
  define t where "t = utc E (tick w) 0"
  obtain q d1 w1 where q: "tx_queryE E (insert_session_row (row_of_new_session t ns)) (d, next_tick w) = (q, d1, w1)"
    by (metis prod_cases3)
  then have r: "r = (case q of Inl e \<Rightarrow> Inl e | Inr x \<Rightarrow> Inr ())" "d' = d1" "w' = w1"
    using assms(1) by (auto simp: insert_session_def bindE_def tx_nowE_def t_def returnE_def split: sum.splits)
  show "db w' = db w"
    using tx_queryE_Inr(1) [OF q] by (simp add: r next_tick_def)
  assume "r = Inr ()"
  then obtain x where "q = Inr x" using r(1) by (cases q) simp_all
  then have "insert_session_row (row_of_new_session t ns) (pg_now E (Suc (tick w))) d = (Inr x, d')"
    using tx_queryE_Inr(2) [OF q] r(2) by (simp add: next_tick_def)
  then show "\<exists>t. d' = d\<lparr>sessions := sessions d @ [row_of_new_session t ns]\<rparr> \<and>
           ns_id ns \<notin> ses_id ` set (sessions d) \<and> ns_user_id ns \<in> usr_id ` set (users d)"
    using assms(2)
    by (intro exI [of _ t])
       (auto simp: insert_session_row_def row_of_new_session_def storable_def as_varchar_short
          as_varchar_method bindR_eq_Inr Let_def split: sum.splits if_splits)
qed

definition inserted :: "new_session list \<Rightarrow> database \<Rightarrow> database \<Rightarrow> bool" where
  "inserted nss d d' \<longleftrightarrow>
     (\<exists>ts. length ts = length nss \<and> d' = d\<lparr>sessions := sessions d @ map2 row_of_new_session ts nss\<rparr>) \<and>
     distinct (map ns_id nss) \<and> ns_id ` set nss \<inter> ses_id ` set (sessions d) = {} \<and>
     ns_user_id ` set nss \<subseteq> usr_id ` set (users d)"

lemma inserted_Cons:
  assumes "inserted nss (d\<lparr>sessions := sessions d @ [row_of_new_session t ns]\<rparr>) d'"
    and "ns_id ns \<notin> ses_id ` set (sessions d)" and "ns_user_id ns \<in> usr_id ` set (users d)"
  shows "inserted (ns # nss) d d'"
proof -
  obtain ts where "length ts = length nss"
      "d' = d\<lparr>sessions := sessions d @ map2 row_of_new_session (t # ts) (ns # nss)\<rparr>"
    using assms(1) by (auto simp: inserted_def)
  then show ?thesis
    using assms by (auto simp: inserted_def row_of_new_session_def intro!: exI [of _ "t # ts"])
qed

lemma insert_sessions_Inr:
  assumes "for_each (insert_session E) nss (d, w) = (r, d', w')" and "\<forall>ns \<in> set nss. storable ns"
  shows "db w' = db w \<and> (r = Inr () \<longrightarrow> inserted nss d d')"
  using assms
proof (induction nss arbitrary: d w)
  case Nil
  then show ?case by (auto simp: returnE_def inserted_def)
next
  case (Cons ns nss)
  obtain q d1 w1 where q: "insert_session E ns (d, w) = (q, d1, w1)" by (metis prod_cases3)
  note ins = insert_session_Inr [OF q]
  show ?case
  proof (cases q)
    case (Inl e)
    with q Cons.prems ins show ?thesis by (auto simp: bindE_def)
  next
    case (Inr x)
    with q Cons.prems have rest: "for_each (insert_session E) nss (d1, w1) = (r, d', w')"
      by (simp add: bindE_def)
    then show ?thesis
      using Cons.IH [OF rest] ins Inr Cons.prems(2) by (auto intro: inserted_Cons)
  qed
qed

lemma update_sessions_Inr:
  assumes "for_each (\<lambda>sid. tx_queryE E (update_session_inactive sid)) ids (d, w) = (r, d', w')"
  shows "db w' = db w"
    and "r = Inr () \<Longrightarrow> d' = d\<lparr>sessions := map (deactivate_if (\<lambda>r. ses_id r \<in> set ids)) (sessions d)\<rparr>"
proof -
  have "db w' = db w \<and> (r = Inr () \<longrightarrow>
          d' = d\<lparr>sessions := map (deactivate_if (\<lambda>r. ses_id r \<in> set ids)) (sessions d)\<rparr>)"
    using assms
  proof (induction ids arbitrary: d w)
    case Nil
    then show ?case by (simp add: returnE_def deactivate_if_def)
  next
    case (Cons i ids)
    obtain q d1 w1 where q: "tx_queryE E (update_session_inactive i) (d, w) = (q, d1, w1)"
      by (metis prod_cases3)
    note up = tx_queryE_Inr [OF q]
    show ?case
    proof (cases q)
      case (Inl e)
      with q Cons.prems up show ?thesis by (auto simp: bindE_def)
    next
      case (Inr x)
      with q Cons.prems have "for_each (\<lambda>sid. tx_queryE E (update_session_inactive sid)) ids (d1, w1) = (r, d', w')"
        by (simp add: bindE_def)
      note rest = Cons.IH [OF this]
      have "d1 = d\<lparr>sessions := map (deactivate_if (\<lambda>r. ses_id r = i)) (sessions d)\<rparr>"
        using up(2) [OF Inr] by (simp add: update_session_inactive_def update_sessions_inactive_def)
      with rest up(1) show ?thesis by (auto simp: deactivate_if_def)
    qed
  qed
  then show "db w' = db w"
    and "r = Inr () \<Longrightarrow> d' = d\<lparr>sessions := map (deactivate_if (\<lambda>r. ses_id r \<in> set ids)) (sessions d)\<rparr>"
    by simp_all
qed


lemma map2_row_of_new:
  assumes "length ts = length nss"
  shows "map ses_id (map2 row_of_new_session ts nss) = map ns_id nss"
    and "map ses_user_id (map2 row_of_new_session ts nss) = map ns_user_id nss"
  using assms by (induction rule: list_induct2) (simp_all add: row_of_new_session_def)

lemma into_sessions_of_new:
  assumes "length ts = length nss" and "\<forall>ns \<in> set nss. storable ns"
  shows "list_all2 (\<lambda>r s. into_session r = Inr s) (map2 row_of_new_session ts nss) (sessions_of_new ts nss)"
  using assms by (induction rule: list_induct2) (simp_all add: sessions_of_new_def into_session_new)

lemma db_wf_append_sessions:
  assumes "db_wf d" and "distinct (map ses_id rows)" and "ses_id ` set rows \<inter> ses_id ` set (sessions d) = {}"
    and "ses_user_id ` set rows \<subseteq> usr_id ` set (users d)"
  shows "db_wf (d\<lparr>sessions := sessions d @ rows\<rparr>)"
proof -
  have "unique_by ses_id (sessions d @ rows)"
    using assms by (auto simp: db_wf_def unique_by_def)
  moreover have "ses_user_id ` set (sessions d @ rows) \<subseteq> usr_id ` set (users d)"
    using assms by (simp add: db_wf_def image_Un)
  moreover have "act_session_id ` set (user_actions d) \<subseteq> insert None (Some ` ses_id ` set (sessions d @ rows))"
    using assms(1) by (auto simp: db_wf_def image_Un)
  ultimately show ?thesis using assms(1) by (simp add: db_wf_def)
qed

lemma inserted_effect:
  assumes "inserted nss d d'" and "readable d" and "\<forall>ns \<in> set nss. storable ns"
  obtains ts where "length ts = length nss" and "readable d'" and "users d' = users d"
    and "stored d' = stored d \<union> set (sessions_of_new ts nss)"
proof -
  obtain ts where ts: "length ts = length nss"
    and d': "d' = d\<lparr>sessions := sessions d @ map2 row_of_new_session ts nss\<rparr>"
    using assms(1) by (auto simp: inserted_def)
  let ?rows = "map2 row_of_new_session ts nss"
  have "db_wf d'"
    unfolding d'
  proof (rule db_wf_append_sessions)
    show "db_wf d" using assms(2) by (simp add: readable_def)
    show "distinct (map ses_id ?rows)" using assms(1) by (simp only: map2_row_of_new [OF ts] inserted_def)
    have "ses_id ` set ?rows = ns_id ` set nss" "ses_user_id ` set ?rows = ns_user_id ` set nss"
      using map2_row_of_new [OF ts, THEN arg_cong [of _ _ set]] by (simp_all only: set_map)
    then show "ses_id ` set ?rows \<inter> ses_id ` set (sessions d) = {}"
      and "ses_user_id ` set ?rows \<subseteq> usr_id ` set (users d)"
      using assms(1) by (simp_all add: inserted_def)
  qed
  moreover have new: "{s. \<exists>r \<in> set ?rows. into_session r = Inr s} = set (sessions_of_new ts nss)"
    "\<forall>r \<in> set ?rows. \<exists>s. into_session r = Inr s"
    using into_sessions_of_new [OF ts assms(3)] by (induction rule: list_all2_induct) auto
  ultimately have "readable d'" using assms(2) by (auto simp: readable_def d')
  moreover have "stored d' = stored d \<union> set (sessions_of_new ts nss)"
    unfolding new(1) [symmetric] by (auto simp: stored_def d')
  ultimately show thesis using that [OF ts] d' by simp
qed

lemma deactivated_effect:
  assumes "readable d" and "d' = d\<lparr>sessions := map (deactivate_if (\<lambda>r. ses_id r \<in> ids)) (sessions d)\<rparr>"
  shows "readable d'" and "users d' = users d"
    and "stored d' = (\<lambda>s. if s_id s \<in> ids then invalidate s else s) ` stored d"
proof -
  let ?off = "deactivate_if (\<lambda>r. ses_id r \<in> ids)"
  let ?g = "\<lambda>s. if s_id s \<in> ids then invalidate s else s"
  have conv: "into_session (?off r) = Inr (?g s)" if "into_session r = Inr s" for r s
    using into_session_deactivate [OF that, of "\<lambda>r. ses_id r \<in> ids"] into_session_fields(1) [OF that] by simp
  have read: "\<exists>s. into_session r = Inr s" if "r \<in> set (sessions d)" for r
    using assms(1) that by (simp add: readable_def)
  have "db_wf d'"
    using inactive_stmt.stmt_wf [of d "\<lambda>r. ses_id r \<in> ids"] assms
    by (simp add: readable_def update_sessions_inactive_def)
  moreover have "\<exists>s. into_session (?off r) = Inr s" if "r \<in> set (sessions d)" for r
    using read [OF that] conv by blast
  ultimately show "readable d'" using assms(1) unfolding readable_def assms(2) by simp
  show "users d' = users d" using assms(2) by simp
  show "stored d' = ?g ` stored d"
  proof (intro set_eqI iffI)
    fix s
    assume "s \<in> stored d'"
    then obtain r where r: "r \<in> set (sessions d)" "into_session (?off r) = Inr s"
      unfolding stored_def assms(2) by auto
    moreover obtain s0 where "into_session r = Inr s0" using read [OF r(1)] by blast
    ultimately show "s \<in> ?g ` stored d" using conv [of r s0] unfolding stored_def by (intro image_eqI [of _ _ s0]) auto
  next
    fix s
    assume "s \<in> ?g ` stored d"
    then obtain r s0 where "r \<in> set (sessions d)" "into_session r = Inr s0" "s = ?g s0"
      unfolding stored_def by blast
    then show "s \<in> stored d'" using conv [of r s0] unfolding stored_def assms(2) by auto
  qed
qed

lemma known_users: "users d' = users d \<Longrightarrow> known d' = known d"
  by (simp add: known_def)

lemma saved_effect:
  assumes "readable d" and "\<forall>ns \<in> set nss. storable ns" and "inserted nss d d1"
    and "d2 = d1\<lparr>sessions := map (deactivate_if (\<lambda>r. ses_id r \<in> set (invalidated_ids ag))) (sessions d1)\<rparr>"
  shows "readable d2 \<and> known d2 = known d \<and> saved_to ag nss (stored d) (stored d2)"
proof -
  obtain ts where ts: "length ts = length nss" "readable d1" "users d1 = users d"
      "stored d1 = stored d \<union> set (sessions_of_new ts nss)"
    by (rule inserted_effect [OF assms(3,1,2)])
  note off = deactivated_effect [OF ts(2) assms(4)]
  have "s_id ` stored d \<subseteq> ses_id ` set (sessions d)"
    by (auto simp: stored_def into_session_eq_Inr)
  then have "distinct (map ns_id nss)" "ns_id ` set nss \<inter> s_id ` stored d = {}"
    using assms(3) unfolding inserted_def by blast+
  moreover have "stored d2 = saved_sessions ag (sessions_of_new ts nss) (stored d)"
    using off(3) by (simp only: saved_sessions_def ts(4))
  ultimately show ?thesis
    using off(1) ts(1) known_users [of d2 d] off(2) ts(3) by (auto simp: saved_to_def)
qed

text \<open>Saving an aggregate has its whole effect, or none and an error.\<close>

lemma save_aggregate_effect:
  assumes "readable (db w)" and "\<forall>ns \<in> set nss. storable ns"
    and "save_aggregate E ag nss w = (r, w')"
  shows "(\<exists>e. r = Inl e) \<and> db w' = db w \<or>
    readable (db w') \<and> known (db w') = known (db w) \<and> saved_to ag nss (stored (db w)) (stored (db w'))"
proof -
  let ?body = "bindE (for_each (insert_session E) nss) (\<lambda>_.
        for_each (\<lambda>sid. tx_queryE E (update_session_inactive sid)) (invalidated_ids ag))"
  let ?w = "next_tick w"
  have dbw: "db ?w = db w" by (simp add: next_tick_def)
  obtain q d2 w2 where q: "?body (db ?w, ?w) = (q, d2, w2)" by (metis prod_cases3)
  obtain q1 d1 w1 where q1: "for_each (insert_session E) nss (db ?w, ?w) = (q1, d1, w1)" by (metis prod_cases3)
  note ins = insert_sessions_Inr [OF q1 assms(2)]
  have "db w2 = db w \<and> (q = Inr () \<longrightarrow> inserted nss (db w) d1 \<and>
      d2 = d1\<lparr>sessions := map (deactivate_if (\<lambda>r. ses_id r \<in> set (invalidated_ids ag))) (sessions d1)\<rparr>)"
    using q q1 ins update_sessions_Inr [of E "invalidated_ids ag" d1 w1 q d2 w2]
    by (cases q1) (auto simp: bindE_def dbw)
  then have w2: "db w2 = db w"
    and eff: "q = Inr () \<Longrightarrow> readable d2 \<and> known d2 = known (db w) \<and> saved_to ag nss (stored (db w)) (stored d2)"
    using saved_effect [OF assms(1,2)] by blast+
  have "save_aggregate E ag nss w =
      (case pg_link_at E (tick w) of
         Pg_Down _ \<Rightarrow> (Inl (InternalError (pg_show E Connection_Error)), ?w)
       | Pg_Up \<Rightarrow> (case q of
           Inl e \<Rightarrow> (Inl e, w2)
         | Inr x \<Rightarrow> map_errE (\<lambda>e. InternalError (pg_show E e)) (commitE E d2) w2))"
    using q unfolding save_aggregate_def transaction_def bindE_def [of "map_errE _ (beginE E)"]
    by (simp add: map_errE_def beginE_def split: pg_link.split sum.split)
  then show ?thesis
    using assms(3) w2 eff dbw
    by (cases q) (auto simp: map_errE_def commitE_def next_tick_def split: pg_link.splits if_splits)
qed


section \<open>Creating a user\<close>

text \<open>What a VARCHAR column keeps of a text: all of it, or all but some trailing blanks.\<close>

lemma as_varchar_cases:
  assumes "as_varchar n s = Inr t"
  shows "t = s \<or> n < char_count s \<and> t = take_chars n s \<and>
           set (drop (length (take_chars n s)) s) \<subseteq> {CHR '' ''}"
proof -
  have as_is: "as_text s = Inr s" using assms unfolding as_varchar_def as_text_def by (simp split: if_split_asm)
  show ?thesis using assms unfolding as_varchar_def as_is bindR_simps by (simp add: subset_iff split: if_split_asm)
qed

lemma take_chars_drop: "take_chars n s @ drop (length (take_chars n s)) s = s"
  by (induction n s rule: take_chars.induct) (auto split: nat.split)

lemma take_chars_Nil: "0 < n \<Longrightarrow> take_chars n s = [] \<longleftrightarrow> s = []"
  by (cases s) (auto split: nat.split)

lemma as_varchar_Inr:
  assumes "as_varchar n s = Inr t"
  shows "c \<in> set s \<Longrightarrow> c \<noteq> CHR '' '' \<Longrightarrow> c \<in> set t" and "char_count s \<le> n \<Longrightarrow> t = s"
    and "0 < n \<Longrightarrow> s \<noteq> [] \<Longrightarrow> t \<noteq> []"
proof -
  have all: "set s = set (take_chars n s) \<union> set (drop (length (take_chars n s)) s)"
    using arg_cong [OF take_chars_drop, of set n s] by (simp only: set_append)
  have "c \<in> set t" if "c \<in> set s" "c \<noteq> b" "t = s \<or> n < char_count s \<and> t = take_chars n s \<and>
           set (drop (length (take_chars n s)) s) \<subseteq> {b}" for b
    using that all by blast
  from this [OF _ _ as_varchar_cases [OF assms]]
  show "c \<in> set s \<Longrightarrow> c \<noteq> CHR '' '' \<Longrightarrow> c \<in> set t" .
  show "t = s" if "char_count s \<le> n"
    using as_varchar_cases [OF assms] that by (elim disjE conjE) simp_all
  show "t \<noteq> []" if "0 < n" "s \<noteq> []"
    using as_varchar_cases [OF assms] take_chars_Nil [OF that(1), of s] that(2)
    by (elim disjE conjE) simp_all
qed

lemma as_varchar_email:
  assumes "as_varchar n s = Inr t" and "Email_new s = Inr e"
  shows "Email_new t = Inr (Email t)"
  using as_varchar_Inr(1) [OF assms(1), of "CHR ''@''"] assms(2) by (simp add: Email_new_iff)

lemma queryE_cases:
  assumes "queryE E f w = (q, w')"
  obtains (ok) x where "q = Inr x" and "f (pg_now E (tick w)) (db w) = (Inr x, db w')"
  | (failed) e where "q = Inl e" and "db w' = snd (f (pg_now E (tick w)) (db w)) \<or> db w' = db w"
proof (cases q)
  case (Inl e)
  have "db w' = snd (f (pg_now E (tick w)) (db w)) \<or> db w' = db w"
    using assms
    by (cases "pg_link_at E (tick w)")
       (auto simp: queryE_def map_errE_def stmtE_def next_tick_def split: prod.splits if_splits)
  with Inl show thesis by (rule failed)
next
  case (Inr x)
  then show thesis using assms queryE_Inr [of E f w x w'] by (intro ok) simp_all
qed

lemma insert_user_row:
  assumes "insert_user r now d = (Inr r1, d')"
  shows "\<exists>username email display_name hash provider. as_varchar 255 (usr_email r) = Inr email \<and>
      transposeR (as_varchar 255) (usr_password_hash r) = Inr hash \<and>
      as_varchar 50 (usr_auth_provider r) = Inr provider \<and> usr_id r \<notin> usr_id ` set (users d) \<and>
      r\<lparr>usr_username := username, usr_email := email, usr_display_name := display_name,
         usr_password_hash := hash, usr_auth_provider := provider\<rparr> = r1 \<and>
      d\<lparr>users := users d @ [r1]\<rparr> = d'"
  using assms unfolding insert_user_def Let_def bindR_def
  by (simp split: sum.split_asm if_split_asm) blast

lemma insert_user_Inr:
  assumes "insert_user r now d = (Inr r1, d')"
  shows "as_varchar 255 (usr_email r) = Inr (usr_email r1)"
    and "transposeR (as_varchar 255) (usr_password_hash r) = Inr (usr_password_hash r1)"
    and "as_varchar 50 (usr_auth_provider r) = Inr (usr_auth_provider r1)"
    and "usr_id r1 = usr_id r" and "usr_id r1 \<notin> usr_id ` set (users d)"
    and "d' = d\<lparr>users := users d @ [r1]\<rparr>"
  using insert_user_row [OF assms] by auto

lemma as_varchar_provider: "as_varchar 50 (auth_provider_as_str p) = Inr (auth_provider_as_str p)"
  by (cases p) (simp_all only: auth_provider_as_str.simps, code_simp+)

lemma transposeR_eq_Inr:
  "transposeR f x = Inr y \<longleftrightarrow>
     (case x of None \<Rightarrow> y = None | Some a \<Rightarrow> (\<exists>b. f a = Inr b \<and> y = Some b))"
  by (auto simp: transposeR_def split: option.split sum.split)

definition row_of_new_user :: "uuid \<Rightarrow> time \<Rightarrow> new_user \<Rightarrow> user_row" where
  "row_of_new_user uid now user =
     \<lparr>usr_id = uid, usr_username = nu_username user, usr_email = email_as_str (nu_email user),
      usr_display_name = nu_display_name user,
      usr_password_hash = map_option hash_as_str (nu_password_hash user),
      usr_auth_provider = auth_provider_as_str (nu_auth_provider user),
      usr_created_at = now, usr_updated_at = now\<rparr>"

lemma created_row_readable:
  assumes "insert_user (row_of_new_user uid t nu) now d = (Inr r1, d')" and "creatable nu"
  shows "\<exists>u. into_user r1 = Inr u \<and> created_user nu u"
proof -
  note ins = insert_user_Inr [OF assms(1)]
  have "Email_new (email_as_str (nu_email nu)) = Inr (nu_email nu)"
    using assms(2) by (simp add: creatable_def)
  then have email: "Email_new (usr_email r1) = Inr (Email (usr_email r1))"
    using as_varchar_email [OF ins(1)] by (simp add: row_of_new_user_def)
  have same: "char_count (email_as_str (nu_email nu)) \<le> 255 \<Longrightarrow> Email (usr_email r1) = nu_email nu"
    using as_varchar_Inr(2) [OF ins(1)] by (cases "nu_email nu") (simp add: row_of_new_user_def)
  have provider: "auth_provider_try_from (usr_auth_provider r1) = Inr (nu_auth_provider nu)"
    using ins(3) by (simp add: row_of_new_user_def as_varchar_provider provider_text.try_from_iff)
  have "\<exists>h. transposeR HashedPassword_new (usr_password_hash r1) = Inr h \<and> (h = None \<longleftrightarrow> nu_password_hash nu = None)"
  proof (cases "nu_password_hash nu")
    case None
    then show ?thesis using ins(2) by (simp add: row_of_new_user_def transposeR_def)
  next
    case (Some h)
    then obtain b where "as_varchar 255 (hash_as_str h) = Inr b" "usr_password_hash r1 = Some b"
      using ins(2) by (auto simp: row_of_new_user_def transposeR_eq_Inr)
    moreover have "hash_as_str h \<noteq> []"
      using assms(2) Some by (cases h) (simp add: creatable_def)
    ultimately show ?thesis
      using as_varchar_Inr(3) [of 255 "hash_as_str h" b] Some by (simp add: transposeR_def HashedPassword_new_def)
  qed
  then obtain h where h: "transposeR HashedPassword_new (usr_password_hash r1) = Inr h"
    "h = None \<longleftrightarrow> nu_password_hash nu = None" by (elim exE conjE)
  have "into_user r1 = Inr \<lparr>u_id = usr_id r1, u_username = usr_username r1, u_email = Email (usr_email r1),
      u_display_name = usr_display_name r1, u_password_hash = h, u_auth_provider = nu_auth_provider nu,
      u_created_at = usr_created_at r1, u_updated_at = usr_updated_at r1\<rparr>"
    using email provider h(1) by (simp add: into_user_def)
  moreover have "created_user nu \<lparr>u_id = usr_id r1, u_username = usr_username r1, u_email = Email (usr_email r1),
      u_display_name = usr_display_name r1, u_password_hash = h, u_auth_provider = nu_auth_provider nu,
      u_created_at = usr_created_at r1, u_updated_at = usr_updated_at r1\<rparr>"
    using h(2) same by (simp add: created_user_def)
  ultimately show ?thesis by (intro exI conjI)
qed

lemma create_user_effect:
  assumes "readable (db w)" and "creatable nu" and "create_user E nu w = (r, w')"
  shows "(\<exists>e. r = Inl e) \<and> db w' = db w \<or>
    (\<exists>u. (r = Inr u \<or> (\<exists>e. r = Inl e)) \<and> readable (db w') \<and> created_user nu u \<and>
         u_id u \<notin> u_id ` known (db w) \<and>
         known (db w') = insert u (known (db w)) \<and> stored (db w') = stored (db w))"
proof -
  let ?w = "next_tick (next_tick w)"
  define row where "row = row_of_new_user (now_v7 E (Suc (tick w)) 0) (utc E (tick w) 0) nu"
  define now where "now = pg_now E (tick ?w)"
  obtain q w1 where q: "queryE E (insert_user row) ?w = (q, w1)" by fastforce
  have r: "r = (case q of Inl e \<Rightarrow> Inl e | Inr x \<Rightarrow> into_user x)" "w' = w1"
    using assms(3) q
    by (auto simp: create_user_def bindE_def nowE_def now_v7E_def row_def row_of_new_user_def liftE_def
        next_tick_def split: sum.splits)
  have dbw: "db ?w = db w" by (simp add: next_tick_def)
  have eff: "\<exists>u. into_user r1 = Inr u \<and> readable d' \<and> created_user nu u \<and> u_id u \<notin> u_id ` known (db w) \<and>
       known d' = insert u (known (db w)) \<and> stored d' = stored (db w)"
    if ins: "insert_user row now (db w) = (Inr r1, d')" for r1 d'
  proof -
    obtain u where u: "into_user r1 = Inr u" "created_user nu u"
      using created_row_readable [OF ins [unfolded row_def] assms(2)] by blast
    have d': "d' = (db w)\<lparr>users := users (db w) @ [r1]\<rparr>" using insert_user_Inr(6) [OF ins] .
    have "db_wf d'"
      using insert_user_stmt.stmt_wf [of "db w" row now] assms(1) ins by (simp add: readable_def)
    then have "readable d'" using assms(1) u by (auto simp: readable_def d')
    moreover have "u_id u \<notin> u_id ` known (db w)"
      using insert_user_Inr(5) [OF ins] u(1) by (auto simp: known_def into_user_eq_Inr image_iff)
    ultimately show ?thesis using u by (auto simp: known_def stored_def d')
  qed
  show ?thesis
    using q
  proof (cases rule: queryE_cases)
    case (ok x)
    then show ?thesis using eff [of x "db w1"] r by (auto simp: now_def dbw)
  next
    case (failed e)
    then show ?thesis
      using eff insert_user_stmt.stmt_atomic [of row now "db w"] r
      by (cases "insert_user row now (db w)"; cases "fst (insert_user row now (db w))")
         (auto simp: now_def dbw)
  qed
qed


section \<open>The PostgreSQL repository meets the contract\<close>

lemma found_row:
  "select_user_by_id uid now d = (Inr (Some r), d) \<Longrightarrow> r \<in> set (users d) \<and> usr_id r = uid"
  "select_user_by_username name now d = (Inr (Some r), d) \<Longrightarrow> r \<in> set (users d) \<and> usr_username r = Some name"
  "select_user_by_email email now d = (Inr (Some r), d) \<Longrightarrow> r \<in> set (users d) \<and> usr_email r = email"
  by (auto simp: select_user_by_id_def select_user_by_username_def select_user_by_email_def
      split: sum.splits dest: find_SomeD)

lemma stored_unique: "readable d \<Longrightarrow> inj_on s_id (stored d)"
proof (rule inj_onI)
  fix s s'
  assume rd: "readable d" and ss: "s \<in> stored d" "s' \<in> stored d" and id: "s_id s = s_id s'"
  obtain r r' where rr: "r \<in> set (sessions d)" "into_session r = Inr s" "r' \<in> set (sessions d)" "into_session r' = Inr s'"
    using ss by (auto simp: stored_def)
  then have "ses_id r = ses_id r'" using id by (simp add: into_session_eq_Inr)
  then have "r = r'"
    using rd rr(1,3) by (auto simp: readable_def db_wf_def unique_by_def distinct_map dest: inj_onD)
  with rr(2,4) show "s = s'" by simp
qed

interpretation postgres_store: user_store "postgres_user_repo E" readable known stored
  for E :: "('e) env_scheme"
proof
  fix w :: "'z world_scheme" and uid ag w' name email
  assume rd: "readable (db w)"
  show "ag_user ag \<in> known (db w) \<and> u_id (ag_user ag) = uid \<and> ag_pending_events ag = [] \<and>
         distinct (map s_id (ag_sessions ag)) \<and> set (ag_sessions ag) = {s \<in> stored (db w). s_user_id s = uid}"
    if "ur_find_aggregate_by_id (postgres_user_repo E) uid w = (Inr (Some ag), w')"
    using finder_Inr [of E "select_user_by_id uid" w ag w'] that rd found_row(1)
    by (fastforce simp: postgres_user_repo_def find_aggregate_by_id_def find_by_id_def into_user_eq_Inr)
  show "ag_user ag \<in> known (db w) \<and> u_username (ag_user ag) = Some name \<and> ag_pending_events ag = [] \<and>
         distinct (map s_id (ag_sessions ag)) \<and>
         set (ag_sessions ag) = {s \<in> stored (db w). s_user_id s = u_id (ag_user ag)}"
    if "ur_find_aggregate_by_username (postgres_user_repo E) name w = (Inr (Some ag), w')"
    using finder_Inr [of E "select_user_by_username name" w ag w'] that rd found_row(2)
    by (fastforce simp: postgres_user_repo_def find_aggregate_by_username_def find_by_username_def into_user_eq_Inr)
  show "ag_user ag \<in> known (db w) \<and> email_as_str (u_email (ag_user ag)) = email \<and> ag_pending_events ag = [] \<and>
         distinct (map s_id (ag_sessions ag)) \<and>
         set (ag_sessions ag) = {s \<in> stored (db w). s_user_id s = u_id (ag_user ag)}"
    if "ur_find_aggregate_by_email (postgres_user_repo E) email w = (Inr (Some ag), w')"
    using finder_Inr [of E "select_user_by_email email" w ag w'] that rd found_row(3)
    by (fastforce simp: postgres_user_repo_def find_aggregate_by_email_def find_by_email_def into_user_eq_Inr
        Email_new_iff)
  show "(\<exists>e. ru = Inl e) \<and> db w' = db w \<or>
     (\<exists>u. (ru = Inr u \<or> (\<exists>e. ru = Inl e)) \<and> readable (db w') \<and> created_user nu u \<and>
          u_id u \<notin> u_id ` known (db w) \<and>
          known (db w') = insert u (known (db w)) \<and> stored (db w') = stored (db w))"
    if "creatable nu" "ur_create (postgres_user_repo E) nu w = (ru, w')" for nu ru
    using create_user_effect [OF rd that(1), of E ru w'] that(2) by (simp add: postgres_user_repo_def)
  show "(\<exists>e. r = Inl e) \<and> db w' = db w \<or>
     readable (db w') \<and> known (db w') = known (db w) \<and> saved_to ag nss (stored (db w)) (stored (db w'))"
    if "\<forall>ns \<in> set nss. storable ns" "ur_save_aggregate (postgres_user_repo E) ag nss w = (r, w')" for nss r
    using save_aggregate_effect [OF rd that(1), of E ag r w'] that(2) by (simp add: postgres_user_repo_def)
qed (simp_all add: stored_unique postgres_user_repo_def read_only_db [OF finders_keep_db(1)]
       read_only_db [OF finders_keep_db(2)] read_only_db [OF finders_keep_db(3)])


lemma sessions_of_new_Cons [simp]:
  "sessions_of_new (t # ts) (ns # nss) = session_of_new t ns # sessions_of_new ts nss"
  "sessions_of_new [] nss = []"
  by (simp_all add: sessions_of_new_def)

lemma sessions_of_new_facts:
  assumes "length ts = length nss"
  shows "ns \<in> set nss \<Longrightarrow> \<exists>t. session_of_new t ns \<in> set (sessions_of_new ts nss)"
    and "s_id ` set (sessions_of_new ts nss) = ns_id ` set nss"
  using assms by (induction rule: list_induct2) auto

text \<open>A statement with the connection up.\<close>

lemma queryE_up:
  "pg_link_at E (tick w) = Pg_Up \<Longrightarrow>
     queryE E f w = (case f (pg_now E (tick w)) (db w) of (r, d) \<Rightarrow>
       (map_err (\<lambda>e. InternalError (pg_show E e)) r, (next_tick w)\<lparr>db := d\<rparr>))"
  by (simp add: queryE_def map_errE_def stmtE_def case_prod_beta)

lemma find_append_fresh:
  "k \<notin> key ` set xs \<Longrightarrow> key x = k \<Longrightarrow> find (\<lambda>y. key y = k) (xs @ [x]) = Some x"
  by (induction xs) auto

lemma insert_session_row_Inr:
  assumes "insert_session_row (row_of_new_session t ns) now d = (Inr r1, d')" and "storable ns"
  shows "r1 = row_of_new_session t ns" and "ns_id ns \<notin> ses_id ` set (sessions d)"
    and "d' = d\<lparr>sessions := sessions d @ [r1]\<rparr>"
  using assms unfolding insert_session_row_def Let_def bindR_def
  by (auto simp: row_of_new_session_def storable_def as_varchar_short as_varchar_method
        split: sum.split_asm if_split_asm)

lemma session_create_found:
  assumes "session_create E ns w = (Inr s, w1)" and "storable ns" and "pg_link_at E (tick w1) = Pg_Up"
  shows "(\<exists>t. s = session_of_new t ns) \<and> fst (session_find_by_id E (ns_id ns) w1) = Inr (Some s)"
proof -
  obtain t r1 where q: "queryE E (insert_session_row (row_of_new_session t ns)) (next_tick w) = (Inr r1, w1)"
    and s: "into_session r1 = Inr s"
    using assms(1) by (auto simp: session_create_def bindE_eq_Inr nowE_def)
  note ins = insert_session_row_Inr [OF queryE_Inr [OF q] assms(2)]
  have "ses_id r1 = ns_id ns" by (simp add: ins(1) row_of_new_session_def)
  then have "find (\<lambda>r. ses_id r = ns_id ns) (sessions (db w1)) = Some r1"
    using ins(2) by (simp add: ins(3) find_append_fresh)
  then show ?thesis
    using s into_session_new [OF assms(2), of t] ins(1)
    by (auto simp: session_find_by_id_def bindE_def queryE_up [OF assms(3)] select_session_by_id_def
        liftE_def transposeR_def)
qed

lemma create_user_found:
  assumes "create_user E nu w = (Inr u, w1)" and "creatable nu" and "pg_link_at E (tick w1) = Pg_Up"
  shows "created_user nu u \<and> fst (find_by_id E (u_id u) w1) = Inr (Some u)"
proof -
  obtain uid t r1 w2 where q: "queryE E (insert_user (row_of_new_user uid t nu)) w2 = (Inr r1, w1)"
    and u: "into_user r1 = Inr u"
    using assms(1) by (auto simp: create_user_def bindE_eq_Inr nowE_def now_v7E_def row_of_new_user_def)
  note ins = insert_user_Inr [OF queryE_Inr [OF q]]
  have uid: "u_id u = usr_id r1" using u by (simp add: into_user_eq_Inr)
  then have "find (\<lambda>r. usr_id r = u_id u) (users (db w1)) = Some r1"
    using ins(5) by (simp add: ins(6) find_append_fresh)
  moreover have "created_user nu u"
    using created_row_readable [OF queryE_Inr [OF q] assms(2)] u by auto
  ultimately show ?thesis
    using u by (simp add: find_by_id_def bindE_def queryE_up [OF assms(3)] select_user_by_id_def
        liftE_def transposeR_def)
qed

text \<open>The audit row an event calls for.\<close>

fun audited :: "event \<Rightarrow> event_type option" where
  "audited (UserLoggedIn e) = Some Login"
| "audited (UserLoggedOut e) = Some Logout"
| "audited (SessionRefreshed e) = Some Refresh"
| "audited (UserCreated e) = None"

lemma as_varchar_event: "as_varchar 20 (event_type_as_str t) = Inr (event_type_as_str t)"
  by (cases t) (simp_all only: event_type_as_str.simps, code_simp+)

lemma as_varchar_method50: "as_varchar 50 (auth_method_as_str m) = Inr (auth_method_as_str m)"
  by (cases m) (simp_all only: auth_method_as_str.simps, code_simp+)

lemma stmtE_up:
  "pg_link_at E (tick w) = Pg_Up \<Longrightarrow>
     stmtE E f w = (case f (pg_now E (tick w)) (db w) of (r, d) \<Rightarrow> (r, (next_tick w)\<lparr>db := d\<rparr>))"
  by (simp add: stmtE_def case_prod_beta)

lemma insert_action_up:
  assumes "\<And>n. pg_link_at E n = Pg_Up" and "uid \<in> usr_id ` set (users (db w))"
    and "sid \<in> ses_id ` set (sessions (db w))"
    and "now_v7 E (tick w) 0 \<notin> act_id ` set (user_actions (db w))"
  shows "db (snd (insert_action E uid (Some sid) t m w)) = (db w)\<lparr>user_actions := user_actions (db w) @
        [\<lparr>act_id = now_v7 E (tick w) 0, act_user_id = uid, act_session_id = Some sid,
          act_event_type = event_type_as_str t, act_auth_method = auth_method_as_str m,
          act_created_at = utc E (Suc (tick w)) 0\<rparr>]\<rparr>"
proof -
  have "insert_action_row \<lparr>act_id = now_v7 E (tick w) 0, act_user_id = uid, act_session_id = Some sid,
          act_event_type = event_type_as_str t, act_auth_method = auth_method_as_str m,
          act_created_at = utc E (Suc (tick w)) 0\<rparr> n (db w) =
      (Inr \<lparr>act_id = now_v7 E (tick w) 0, act_user_id = uid, act_session_id = Some sid,
          act_event_type = event_type_as_str t, act_auth_method = auth_method_as_str m,
          act_created_at = utc E (Suc (tick w)) 0\<rparr>,
       (db w)\<lparr>user_actions := user_actions (db w) @
        [\<lparr>act_id = now_v7 E (tick w) 0, act_user_id = uid, act_session_id = Some sid,
          act_event_type = event_type_as_str t, act_auth_method = auth_method_as_str m,
          act_created_at = utc E (Suc (tick w)) 0\<rparr>]\<rparr>)" for n
    using assms(2-4) unfolding insert_action_row_def as_varchar_event as_varchar_method50
    by (simp add: as_varchar_event as_varchar_method50 image_iff)
  then show ?thesis
    using assms(1) by (simp add: insert_action_def bindE_def nowE_def now_v7E_def stmtE_up next_tick_def returnE_def)
qed


section \<open>Properties\<close>

text \<open>
  C8.  Saving an aggregate is atomic, whatever happens to the connection on the way: either
  an error is reported and the database is as before, or every new session is stored
  active, every session the aggregate has invalidated is inactive, every other session and
  every user is as before, and no session id occurs twice.  A reported success means the
  second.
\<close>

theorem save_aggregate_atomic:
  assumes "readable (db w)" and "\<forall>ns \<in> set nss. storable ns"
    and "save_aggregate E ag nss w = (r, w')"
  shows "(\<exists>e. r = Inl e) \<and> db w' = db w \<or>
    readable (db w') \<and> known (db w') = known (db w) \<and>
    (\<forall>ns \<in> set nss. ns_id ns \<notin> s_id ` stored (db w) \<and>
       (\<exists>t. (if ns_id ns \<in> set (invalidated_ids ag) then invalidate (session_of_new t ns) else session_of_new t ns)
              \<in> stored (db w'))) \<and>
    (\<forall>s \<in> stored (db w). (if s_id s \<in> set (invalidated_ids ag) then invalidate s else s) \<in> stored (db w')) \<and>
    s_id ` stored (db w') = s_id ` stored (db w) \<union> ns_id ` set nss"
proof -
  have eff: "(\<forall>ns \<in> set nss. ns_id ns \<notin> s_id ` stored (db w) \<and>
       (\<exists>t. (if ns_id ns \<in> set (invalidated_ids ag) then invalidate (session_of_new t ns) else session_of_new t ns)
              \<in> stored (db w'))) \<and>
    (\<forall>s \<in> stored (db w). (if s_id s \<in> set (invalidated_ids ag) then invalidate s else s) \<in> stored (db w')) \<and>
    s_id ` stored (db w') = s_id ` stored (db w) \<union> ns_id ` set nss"
    if save: "saved_to ag nss (stored (db w)) (stored (db w'))"
  proof -
    let ?g = "\<lambda>s. if s_id s \<in> set (invalidated_ids ag) then invalidate s else s"
    obtain ts where ts: "length ts = length nss"
      and st: "stored (db w') = ?g ` (stored (db w) \<union> set (sessions_of_new ts nss))"
      and fresh: "ns_id ` set nss \<inter> s_id ` stored (db w) = {}"
      using save unfolding saved_to_def saved_sessions_def by (elim conjE exE) simp
    have g: "?g s \<in> stored (db w')" if "s \<in> stored (db w) \<union> set (sessions_of_new ts nss)" for s
      unfolding st using that by (rule imageI)
    have "\<exists>t. ?g (session_of_new t ns) \<in> stored (db w')" if "ns \<in> set nss" for ns
      using sessions_of_new_facts(1) [OF ts that] g by blast
    moreover have "s_id ` ?g ` A = s_id ` A" for A
      unfolding image_image by (rule image_cong) simp_all
    then have "s_id ` stored (db w') = s_id ` stored (db w) \<union> ns_id ` set nss"
      unfolding st by (simp only: image_Un sessions_of_new_facts(2) [OF ts])
    ultimately show ?thesis using fresh g by (simp add: disjoint_iff)
  qed
  show ?thesis using save_aggregate_effect [OF assms] eff by blast
qed


text \<open>
  C30.  The audit trail: with the database up, a login, logout or refresh event of a user and
  session that exist appends exactly one audit row, for that user and session, with the
  event's own type and login method; a user-created event appends none.
\<close>

theorem audit_event_recorded:
  assumes "\<And>n. pg_link_at E n = Pg_Up" and "event_user_id e \<in> usr_id ` set (users (db w))"
    and "event_session_id e \<in> insert None (Some ` ses_id ` set (sessions (db w)))"
    and "now_v7 E (tick w) 0 \<notin> act_id ` set (user_actions (db w))"
  shows "db (handle_event E e w) = (case audited e of
      None \<Rightarrow> db w
    | Some t \<Rightarrow> (db w)\<lparr>user_actions := user_actions (db w) @
        [\<lparr>act_id = now_v7 E (tick w) 0, act_user_id = event_user_id e, act_session_id = event_session_id e,
          act_event_type = event_type_as_str t,
          act_auth_method = auth_method_as_str (the (event_auth_method e)),
          act_created_at = utc E (Suc (tick w)) 0\<rparr>]\<rparr>)"
  using assms(2-4)
  by (cases e) (auto simp: event_user_id_def insert_action_up [OF assms(1)])


subsection \<open>The properties at work\<close>

text \<open>A database with one user and one session, and a reliable connection.\<close>

definition ann_row :: user_row where
  "ann_row = \<lparr>usr_id = 1, usr_username = Some ''ann'', usr_email = ''ann@x.io'', usr_display_name = ''Ann'',
     usr_password_hash = Some ''h'', usr_auth_provider = ''local'', usr_created_at = 0, usr_updated_at = 0\<rparr>"

definition ann_session_row :: session_row where
  "ann_session_row = \<lparr>ses_id = 5, ses_user_id = 1, ses_refresh_token_hash = ''rh'', ses_expires_at = 1000,
     ses_is_active = True, ses_created_at = 0, ses_auth_method = ''password''\<rparr>"

definition ann_db :: database where
  "ann_db = empty_db\<lparr>users := [ann_row], sessions := [ann_session_row]\<rparr>"

abbreviation ann_world :: world where
  "ann_world \<equiv> \<lparr>tick = 0, db = ann_db\<rparr>"

definition calm_env :: env where
  "calm_env = \<lparr>utc = (\<lambda>n i. 10), now_v7 = (\<lambda>n i. 100), pg_link_at = (\<lambda>n. Pg_Up), pg_now = (\<lambda>n. 10),
     pg_show = (\<lambda>e. ''db'')\<rparr>"

definition ann_new_session :: new_session where
  "ann_new_session = NewSession_new 6 1 (HashedPassword ''nh'') 2000 Password"

lemma ann_entities:
  "\<exists>u. into_user ann_row = Inr u" "\<exists>s. into_session ann_session_row = Inr s"
  by (simp_all add: into_user_def ann_row_def Email_new_def auth_provider_try_from_def transposeR_def
        HashedPassword_new_def into_session_def ann_session_row_def auth_method_try_from_def)

lemma ann_db_readable: "readable ann_db"
  using ann_entities
  by (simp add: readable_def db_wf_def ann_db_def empty_db_def unique_by_def) 
     (simp add: ann_session_row_def ann_row_def)

lemma stored_ids: "readable d \<Longrightarrow> s_id ` stored d = ses_id ` set (sessions d)"
  by (force simp: readable_def stored_def into_session_fields(1) image_iff)

lemma ann_new_session_storable: "storable ann_new_session"
  by (simp add: storable_def ann_new_session_def NewSession_new_def char_count_def)

theorem save_aggregate_atomic_witness:
  "let ag = UserAggregate_new sample_user
              [\<lparr>s_id = 5, s_user_id = 1, s_refresh_token_hash = HashedPassword ''rh'', s_expires_at = 1000,
                s_is_active = False, s_created_at = 0, s_auth_method = Password\<rparr>];
       w' = snd (save_aggregate calm_env ag [ann_new_session] ann_world)
   in s_id ` stored (db w') = {5, 6}"
proof -
  let ?ag = "UserAggregate_new sample_user
              [\<lparr>s_id = 5, s_user_id = 1, s_refresh_token_hash = HashedPassword ''rh'', s_expires_at = 1000,
                s_is_active = False, s_created_at = 0, s_auth_method = Password\<rparr>]"
  obtain r w' where s: "save_aggregate calm_env ?ag [ann_new_session] ann_world = (r, w')" by fastforce
  have ids: "s_id ` stored ann_db = {5}"
    unfolding stored_ids [OF ann_db_readable] by (simp add: ann_db_def ann_session_row_def)
  have "fst (save_aggregate calm_env ?ag [ann_new_session] ann_world) = Inr ()"
    by code_simp
  then have "r = Inr ()" using s by simp
  with ids show ?thesis
    using save_aggregate_atomic [OF _ _ s] ann_db_readable ann_new_session_storable s
    by (auto simp: ann_new_session_def NewSession_new_def)
qed


theorem audit_event_recorded_witness:
  "user_actions (db (handle_event calm_env (UserLoggedOut (UserLoggedOut_new 10 1 5 Password)) ann_world)) =
     [\<lparr>act_id = 100, act_user_id = 1, act_session_id = Some 5, act_event_type = ''logout'',
       act_auth_method = ''password'', act_created_at = 10\<rparr>]"
  using audit_event_recorded [of calm_env "UserLoggedOut (UserLoggedOut_new 10 1 5 Password)" ann_world]
  by (simp add: calm_env_def ann_db_def empty_db_def ann_row_def ann_session_row_def UserLoggedOut_new_def
        event_user_id_def)

end
