(* ===== verification/Redis_Service.thy ===== *)
theory Redis_Service
  imports Rust_Std
begin

text \<open>
  Redis as the service uses it.  The server is not part of the repository: it is a
  parameter \<open>R\<close>, a record of the commands the code sends, over a state type of its own,
  and \<open>redis_contract\<close> states the documented behaviour of those commands that the code
  relies on, relative to a view \<open>V\<close> of the live keys.  The connection is a parameter as
  well: any call may fail or run into the client's timeout, before or after the server
  executed it.  The two Lua scripts of \<open>rate_limiter/redis.rs\<close> are translated here.
\<close>

section \<open>Server and connection\<close>

text \<open>
  Every command takes the server's time at its execution and the key; the result is
  \<open>None\<close> where the server replies with an error.  \<open>GET\<close> and \<open>EXISTS\<close> carry the
  conversion the client asks for (\<open>Option<u32>\<close> and \<open>bool\<close>).
\<close>

record 'r redis_server =
  INCR :: "time \<Rightarrow> string \<Rightarrow> 'r \<Rightarrow> int option \<times> 'r"
  EXPIRE :: "time \<Rightarrow> string \<Rightarrow> u64 \<Rightarrow> 'r \<Rightarrow> int option \<times> 'r"
  GET_u32 :: "time \<Rightarrow> string \<Rightarrow> 'r \<Rightarrow> u32 option option \<times> 'r"
  DEL :: "time \<Rightarrow> string \<Rightarrow> 'r \<Rightarrow> int option \<times> 'r"
  SET_EX :: "time \<Rightarrow> string \<Rightarrow> string \<Rightarrow> u64 \<Rightarrow> 'r \<Rightarrow> unit option \<times> 'r"
  EXISTS :: "time \<Rightarrow> string \<Rightarrow> 'r \<Rightarrow> bool option \<times> 'r"

text \<open>The connection at one call: up, or failing or timing out, the flag telling whether
  the server executed the command although its reply was lost.\<close>

datatype link = Up | Failed bool | Timed_Out bool

datatype 'a redis_outcome = ROk 'a | RErr | RTimeout

text \<open>\<open>tokio::time::timeout(REDIS_TIMEOUT, command).await\<close>.\<close>

fun redis_call :: "link \<Rightarrow> ('r \<Rightarrow> 'a option \<times> 'r) \<Rightarrow> 'r \<Rightarrow> 'a redis_outcome \<times> 'r" where
  "redis_call Up f r = (case f r of (Some x, r') \<Rightarrow> (ROk x, r') | (None, r') \<Rightarrow> (RErr, r'))"
| "redis_call (Failed executed) f r = (RErr, if executed then snd (f r) else r)"
| "redis_call (Timed_Out executed) f r = (RTimeout, if executed then snd (f r) else r)"


text \<open>What one call of a Redis-backed component reads from outside: the local clock, the Redis server's
  clock and the state of the connection.\<close>

record call_ctx =
  cx_clk :: "nat \<Rightarrow> time"
  cx_srv :: time
  cx_link :: link

text \<open>A call whose clock readings are all \<open>t\<close>, over a working connection.\<close>

definition ctx_at :: "time \<Rightarrow> call_ctx" where
  "ctx_at t = \<lparr>cx_clk = (\<lambda>_. t), cx_srv = t, cx_link = Up\<rparr>"

lemma ctx_at_simps [simp]:
  "cx_clk (ctx_at t) i = t"
  "cx_srv (ctx_at t) = t"
  "cx_link (ctx_at t) = Up"
  by (simp_all add: ctx_at_def)


section \<open>The Lua scripts\<close>

definition incr_with_expire_script ::
  "('r, 'z) redis_server_scheme \<Rightarrow> time \<Rightarrow> string \<Rightarrow> u64 \<Rightarrow> 'r \<Rightarrow> int option \<times> 'r" where
  "incr_with_expire_script R t key ttl r =
     (case INCR R t key r of
        (None, r1) \<Rightarrow> (None, r1)
      | (Some current, r1) \<Rightarrow>
          if current = 1 then
            (case EXPIRE R t key ttl r1 of
               (None, r2) \<Rightarrow> (None, r2)
             | (Some _, r2) \<Rightarrow> (Some current, r2))
          else (Some current, r1))"

definition try_check_and_record_script ::
  "('r, 'z) redis_server_scheme \<Rightarrow> time \<Rightarrow> string \<Rightarrow> u64 \<Rightarrow> u32 \<Rightarrow> 'r \<Rightarrow> int option \<times> 'r" where
  "try_check_and_record_script R t key ttl max_attempts r =
     (case INCR R t key r of
        (None, r1) \<Rightarrow> (None, r1)
      | (Some current, r1) \<Rightarrow>
          (case (if current = 1 then EXPIRE R t key ttl r1 else (Some 0, r1)) of
             (None, r2) \<Rightarrow> (None, r2)
           | (Some _, r2) \<Rightarrow> (Some (if current \<le> uint max_attempts then 1 else 0), r2)))"


section \<open>The documented behaviour\<close>

datatype redis_value = Int_Value int | Text_Value string

type_synonym 'r redis_view = "time \<Rightarrow> string \<Rightarrow> 'r \<Rightarrow> (redis_value \<times> time option) option"

text \<open>A key with its expiry, as seen at time \<open>t\<close>.\<close>

definition seen_at :: "time \<Rightarrow> ('v \<times> time option) option \<Rightarrow> ('v \<times> time option) option" where
  "seen_at t x =
     (case x of Some (v, Some e) \<Rightarrow> if t < e then x else None | _ \<Rightarrow> x)"

definition sets_key ::
  "'r redis_view \<Rightarrow> time \<Rightarrow> string \<Rightarrow> (redis_value \<times> time option) option \<Rightarrow> 'r \<Rightarrow> 'r \<Rightarrow> bool" where
  "sets_key V t k x r r' \<longleftrightarrow>
     (\<forall>t' \<ge> t. V t' k r' = seen_at t' x) \<and>
     (\<forall>t' \<ge> t. \<forall>k'. k' \<noteq> k \<longrightarrow> V t' k' r' = V t' k' r)"

definition keeps_keys :: "'r redis_view \<Rightarrow> time \<Rightarrow> 'r \<Rightarrow> 'r \<Rightarrow> bool" where
  "keeps_keys V t r r' \<longleftrightarrow> (\<forall>t' \<ge> t. \<forall>k. V t' k r' = V t' k r)"

text \<open>A key disappears exactly at its expiry and is otherwise left alone by the passing
  of time.\<close>

definition expiry_law :: "'r redis_view \<Rightarrow> bool" where
  "expiry_law V \<longleftrightarrow> (\<forall>t t' k r. t \<le> t' \<longrightarrow> V t' k r = seen_at t' (V t k r))"

text \<open>INCR: a missing key counts from zero and gets no expiry; a counter goes up by one
  and keeps its expiry.\<close>

definition incr_law :: "('r, 'z) redis_server_scheme \<Rightarrow> 'r redis_view \<Rightarrow> bool" where
  "incr_law R V \<longleftrightarrow>
     (\<forall>t k r. V t k r = None \<longrightarrow>
        fst (INCR R t k r) = Some 1 \<and>
        sets_key V t k (Some (Int_Value 1, None)) r (snd (INCR R t k r))) \<and>
     (\<forall>t k r n e. V t k r = Some (Int_Value n, e) \<longrightarrow> n + 1 < 2 ^ 63 \<longrightarrow>
        fst (INCR R t k r) = Some (n + 1) \<and>
        sets_key V t k (Some (Int_Value (n + 1), e)) r (snd (INCR R t k r)))"

text \<open>EXPIRE with a positive number of seconds in range sets the expiry of a live key.\<close>

definition expire_law :: "('r, 'z) redis_server_scheme \<Rightarrow> 'r redis_view \<Rightarrow> bool" where
  "expire_law R V \<longleftrightarrow>
     (\<forall>t k ttl r v e. V t k r = Some (v, e) \<longrightarrow> 0 < ttl \<longrightarrow> ttl < 2 ^ 31 \<longrightarrow>
        fst (EXPIRE R t k ttl r) = Some 1 \<and>
        sets_key V t k (Some (v, Some (t + secs (uint ttl)))) r (snd (EXPIRE R t k ttl r)))"

definition get_law :: "('r, 'z) redis_server_scheme \<Rightarrow> 'r redis_view \<Rightarrow> bool" where
  "get_law R V \<longleftrightarrow>
     (\<forall>t k r. keeps_keys V t r (snd (GET_u32 R t k r)) \<and>
        (case V t k r of
           None \<Rightarrow> fst (GET_u32 R t k r) = Some None
         | Some (Int_Value n, e) \<Rightarrow>
             0 \<le> n \<longrightarrow> n < 2 ^ 32 \<longrightarrow> fst (GET_u32 R t k r) = Some (Some (word_of_int n))
         | _ \<Rightarrow> True))"

definition del_law :: "('r, 'z) redis_server_scheme \<Rightarrow> 'r redis_view \<Rightarrow> bool" where
  "del_law R V \<longleftrightarrow>
     (\<forall>t k r. fst (DEL R t k r) \<noteq> None \<and> sets_key V t k None r (snd (DEL R t k r)))"

text \<open>SET with EX: the key is live for that many seconds, whatever it was before.\<close>

definition set_ex_law :: "('r, 'z) redis_server_scheme \<Rightarrow> 'r redis_view \<Rightarrow> bool" where
  "set_ex_law R V \<longleftrightarrow>
     (\<forall>t k x ttl r. 0 < ttl \<longrightarrow> ttl < 2 ^ 31 \<longrightarrow>
        fst (SET_EX R t k x ttl r) = Some () \<and>
        (\<exists>v. sets_key V t k (Some (v, Some (t + secs (uint ttl)))) r (snd (SET_EX R t k x ttl r))))"

definition exists_law :: "('r, 'z) redis_server_scheme \<Rightarrow> 'r redis_view \<Rightarrow> bool" where
  "exists_law R V \<longleftrightarrow>
     (\<forall>t k r. fst (EXISTS R t k r) = Some (V t k r \<noteq> None) \<and>
        keeps_keys V t r (snd (EXISTS R t k r)))"

definition redis_contract :: "('r, 'z) redis_server_scheme \<Rightarrow> 'r redis_view \<Rightarrow> bool" where
  "redis_contract R V \<longleftrightarrow>
     expiry_law V \<and> incr_law R V \<and> expire_law R V \<and> get_law R V \<and> del_law R V \<and>
     set_ex_law R V \<and> exists_law R V"


section \<open>A server that behaves as documented\<close>

text \<open>The contract can be met: a server that keeps its keys in a function.\<close>

type_synonym redis_store = "string \<Rightarrow> (redis_value \<times> time option) option"

definition store_view :: "redis_store redis_view" where
  "store_view t k r = seen_at t (r k)"

definition store_server :: "redis_store redis_server" where
  "store_server =
     \<lparr>INCR = (\<lambda>t k r. case seen_at t (r k) of
         None \<Rightarrow> (Some 1, r(k \<mapsto> (Int_Value 1, None)))
       | Some (Int_Value n, e) \<Rightarrow>
           if n + 1 < 2 ^ 63 then (Some (n + 1), r(k \<mapsto> (Int_Value (n + 1), e))) else (None, r)
       | Some (Text_Value s, e) \<Rightarrow> (None, r)),
      EXPIRE = (\<lambda>t k ttl r. case seen_at t (r k) of
         None \<Rightarrow> (Some 0, r)
       | Some (v, e) \<Rightarrow> (Some 1, r(k \<mapsto> (v, Some (t + secs (uint ttl)))))),
      GET_u32 = (\<lambda>t k r. case seen_at t (r k) of
         None \<Rightarrow> (Some None, r)
       | Some (Int_Value n, e) \<Rightarrow>
           (if 0 \<le> n \<and> n < 2 ^ 32 then Some (Some (word_of_int n)) else None, r)
       | Some (Text_Value s, e) \<Rightarrow> (None, r)),
      DEL = (\<lambda>t k r. (Some (if seen_at t (r k) = None then 0 else 1), r(k := None))),
      SET_EX = (\<lambda>t k x ttl r. (Some (), r(k \<mapsto> (Text_Value x, Some (t + secs (uint ttl)))))),
      EXISTS = (\<lambda>t k r. (Some (seen_at t (r k) \<noteq> None), r))\<rparr>"

lemma seen_at_seen_at: "t \<le> t' \<Longrightarrow> seen_at t' (seen_at t x) = seen_at t' x"
  by (auto simp: seen_at_def split: option.splits prod.splits if_splits)

lemma seen_at_Some: "seen_at t x = Some (v, e) \<Longrightarrow> x = Some (v, e)"
  by (auto simp: seen_at_def split: option.splits prod.splits if_splits)

lemma seen_at_None [simp]: "seen_at t None = None"
  by (simp add: seen_at_def)

lemma sets_keyD:
  "sets_key V t k x r r' \<Longrightarrow> t \<le> t' \<Longrightarrow> V t' k r' = seen_at t' x"
  "sets_key V t k x r r' \<Longrightarrow> t \<le> t' \<Longrightarrow> k' \<noteq> k \<Longrightarrow> V t' k' r' = V t' k' r"
  by (auto simp: sets_key_def)

lemma incr_missing:
  "incr_law R V \<Longrightarrow> V t k r = None \<Longrightarrow>
     fst (INCR R t k r) = Some 1 \<and>
     sets_key V t k (Some (Int_Value 1, None)) r (snd (INCR R t k r))"
  unfolding incr_law_def by blast

lemma incr_counter:
  "incr_law R V \<Longrightarrow> V t k r = Some (Int_Value n, e) \<Longrightarrow> n + 1 < 2 ^ 63 \<Longrightarrow>
     fst (INCR R t k r) = Some (n + 1) \<and>
     sets_key V t k (Some (Int_Value (n + 1), e)) r (snd (INCR R t k r))"
  unfolding incr_law_def by blast

lemma store_sets_key:
  "sets_key store_view t k x r (r(k := x))"
  by (simp add: sets_key_def store_view_def)

lemma store_contract: "redis_contract store_server store_view"
proof -
  have "expiry_law store_view"
    by (simp add: expiry_law_def store_view_def seen_at_seen_at)
  moreover have "incr_law store_server store_view"
    by (auto simp: incr_law_def store_server_def store_view_def [abs_def] sets_key_def
             split: option.splits prod.splits redis_value.splits)
  moreover have "expire_law store_server store_view"
    by (auto simp: expire_law_def store_server_def store_view_def [abs_def] sets_key_def)
  moreover have "get_law store_server store_view"
    by (auto simp: get_law_def store_server_def store_view_def [abs_def] keeps_keys_def
             split: option.splits prod.splits redis_value.splits)
  moreover have "del_law store_server store_view"
    by (auto simp: del_law_def store_server_def store_view_def [abs_def] sets_key_def)
  moreover have "set_ex_law store_server store_view"
    by (auto simp: set_ex_law_def store_server_def store_view_def [abs_def] sets_key_def)
  moreover have "exists_law store_server store_view"
    by (auto simp: exists_law_def store_server_def store_view_def [abs_def] keeps_keys_def)
  ultimately show ?thesis by (simp add: redis_contract_def)
qed

end
