(* ===== verification/Blacklist.thy ===== *)
theory Blacklist
  imports Redis_Service Database
begin

text \<open>
  The revocation list of access tokens: the backends of
  \<open>crates/infrastructure/src/access_token_blacklist\<close> (in memory, in Redis, and the durable
  decorator that journals in PostgreSQL what its inner backend rejects) behind the
  \<open>AccessTokenBlacklist\<close> port.  \<open>revocation_backend\<close> is the contract of the port; the
  lemmas proved from it carry over to every backend.
\<close>

section \<open>The port\<close>

text \<open>The trait object; \<open>Inl ()\<close> is \<open>BlacklistError\<close>.\<close>

record 'b blacklist =
  bl_revoke :: "call_ctx \<Rightarrow> uuid \<Rightarrow> u64 \<Rightarrow> 'b \<Rightarrow> (unit + unit) \<times> 'b"
  bl_is_revoked :: "call_ctx \<Rightarrow> uuid \<Rightarrow> 'b \<Rightarrow> (unit + bool) \<times> 'b"


section \<open>The in-memory backend\<close>

record revoked_entry =
  revoked_at :: time
  rv_ttl :: time

type_synonym memory_blacklist = "(uuid, revoked_entry) hash_map"

definition mb_revoke ::
  "call_ctx \<Rightarrow> uuid \<Rightarrow> u64 \<Rightarrow> memory_blacklist \<Rightarrow> (unit + unit) \<times> memory_blacklist" where
  "mb_revoke cx jti ttl_secs m =
     (let now = cx_clk cx 0;
          m1 = hm_retain (\<lambda>_ entry. duration_since now (revoked_at entry) < rv_ttl entry) m
      in (Inr (), hm_insert jti \<lparr>revoked_at = now, rv_ttl = secs (uint ttl_secs)\<rparr> m1))"

text \<open>\<open>is_revoked\<close> looks under the read lock first; only an expired entry takes it to the
  write lock, where it looks again.  Other tasks may run between the two.\<close>

definition mb_fast :: "time \<Rightarrow> uuid \<Rightarrow> memory_blacklist \<Rightarrow> bool option" where
  "mb_fast now jti m =
     (case map_of m jti of
        Some entry \<Rightarrow> if duration_since now (revoked_at entry) < rv_ttl entry then Some True else None
      | None \<Rightarrow> Some False)"

definition mb_slow :: "time \<Rightarrow> uuid \<Rightarrow> memory_blacklist \<Rightarrow> bool \<times> memory_blacklist" where
  "mb_slow now jti m =
     (case map_of m jti of
        Some entry \<Rightarrow>
          if duration_since now (revoked_at entry) < rv_ttl entry then (True, m)
          else (False, hm_remove jti m)
      | None \<Rightarrow> (False, m))"

definition mb_is_revoked ::
  "call_ctx \<Rightarrow> uuid \<Rightarrow> memory_blacklist \<Rightarrow> (unit + bool) \<times> memory_blacklist" where
  "mb_is_revoked cx jti m =
     (case mb_fast (cx_clk cx 0) jti m of
        Some b \<Rightarrow> (Inr b, m)
      | None \<Rightarrow> (case mb_slow (cx_clk cx 1) jti m of (b, m1) \<Rightarrow> (Inr b, m1)))"

definition mb_entry_count :: "memory_blacklist \<Rightarrow> nat" where
  "mb_entry_count m = length m"

definition memory_backend :: "memory_blacklist blacklist" where
  "memory_backend = \<lparr>bl_revoke = mb_revoke, bl_is_revoked = mb_is_revoked\<rparr>"


section \<open>The Redis backend\<close>

text \<open>The state is the error counter with the server's; \<open>show_uuid\<close> is the \<open>Display\<close> of
  the \<open>uuid\<close> crate.\<close>

definition rb_key :: "(uuid \<Rightarrow> string) \<Rightarrow> uuid \<Rightarrow> string" where
  "rb_key show_uuid jti = ''acl:revoked:'' @ show_uuid jti"

definition rb_revoke ::
  "('r, 'z) redis_server_scheme \<Rightarrow> (uuid \<Rightarrow> string) \<Rightarrow> call_ctx \<Rightarrow> uuid \<Rightarrow> u64 \<Rightarrow> u64 \<times> 'r
   \<Rightarrow> (unit + unit) \<times> (u64 \<times> 'r)" where
  "rb_revoke R show_uuid cx jti ttl_secs s =
     (if ttl_secs = 0 then (Inr (), s)
      else (case s of (errors, r) \<Rightarrow>
        (case redis_call (cx_link cx) (SET_EX R (cx_srv cx) (rb_key show_uuid jti) ''1'' ttl_secs) r of
           (ROk _, r1) \<Rightarrow> (Inr (), (errors, r1))
         | (RErr, r1) \<Rightarrow> (Inl (), (errors + 1, r1))
         | (RTimeout, r1) \<Rightarrow> (Inl (), (errors + 1, r1)))))"

definition rb_is_revoked ::
  "('r, 'z) redis_server_scheme \<Rightarrow> (uuid \<Rightarrow> string) \<Rightarrow> call_ctx \<Rightarrow> uuid \<Rightarrow> u64 \<times> 'r
   \<Rightarrow> (unit + bool) \<times> (u64 \<times> 'r)" where
  "rb_is_revoked R show_uuid cx jti s =
     (case s of (errors, r) \<Rightarrow>
        (case redis_call (cx_link cx) (EXISTS R (cx_srv cx) (rb_key show_uuid jti)) r of
           (ROk b, r1) \<Rightarrow> (Inr b, (errors, r1))
         | (RErr, r1) \<Rightarrow> (Inl (), (errors + 1, r1))
         | (RTimeout, r1) \<Rightarrow> (Inl (), (errors + 1, r1))))"

definition redis_backend ::
  "('r, 'z) redis_server_scheme \<Rightarrow> (uuid \<Rightarrow> string) \<Rightarrow> (u64 \<times> 'r) blacklist" where
  "redis_backend R show_uuid =
     \<lparr>bl_revoke = rb_revoke R show_uuid, bl_is_revoked = rb_is_revoked R show_uuid\<rparr>"


section \<open>The durable decorator\<close>

record pending_entry =
  added_at :: time
  pe_ttl :: time

record 'b durable =
  inner :: 'b
  pending :: "(uuid, pending_entry) hash_map"

definition durable_new :: "'b \<Rightarrow> 'b durable" where
  "durable_new b = \<lparr>inner = b, pending = []\<rparr>"

text \<open>What one call reads: the local clock, one context per call of the inner backend, and
  the database connection and clock per statement.\<close>

record bl_ctx =
  bx_clk :: "nat \<Rightarrow> time"
  bx_inner :: "nat \<Rightarrow> call_ctx"
  bx_pg :: "nat \<Rightarrow> pg_link"
  bx_now :: "nat \<Rightarrow> time"

definition FLUSH_BATCH_SIZE :: nat where
  "FLUSH_BATCH_SIZE = 500"

definition entry_live :: "time \<Rightarrow> pending_entry \<Rightarrow> bool" where
  "entry_live now entry \<longleftrightarrow> duration_since now (added_at entry) < pe_ttl entry"

definition prune_pending ::
  "time \<Rightarrow> (uuid, pending_entry) hash_map \<Rightarrow> (uuid, pending_entry) hash_map" where
  "prune_pending now m = hm_retain (\<lambda>_. entry_live now) m"

text \<open>\<open>ttl_secs as i64\<close> reinterprets the bits.\<close>

definition journal :: "bl_ctx \<Rightarrow> uuid \<Rightarrow> u64 \<Rightarrow> database \<Rightarrow> (unit + unit) \<times> database" where
  "journal bx jti ttl_secs d =
     (case pg_run (bx_pg bx 0) (bx_now bx 0) (insert_outbox jti (sint ttl_secs)) d of
        (r, d1) \<Rightarrow> (map_err (\<lambda>_. ()) r, d1))"

definition durable_revoke ::
  "'b blacklist \<Rightarrow> bl_ctx \<Rightarrow> uuid \<Rightarrow> u64 \<Rightarrow> 'b durable \<times> database
   \<Rightarrow> (unit + unit) \<times> ('b durable \<times> database)" where
  "durable_revoke B bx jti ttl_secs s =
     (case s of (D, d) \<Rightarrow>
        (case bl_revoke B (bx_inner bx 0) jti ttl_secs (inner D) of
           (Inr _, b) \<Rightarrow> (Inr (), (D\<lparr>inner := b\<rparr>, d))
         | (Inl _, b) \<Rightarrow>
             (case journal bx jti ttl_secs d of
                (Inl _, d1) \<Rightarrow> (Inl (), (D\<lparr>inner := b\<rparr>, d1))
              | (Inr _, d1) \<Rightarrow>
                  (Inr (), (D\<lparr>inner := b,
                              pending := hm_insert jti
                                \<lparr>added_at = bx_clk bx 0, pe_ttl = secs (uint ttl_secs)\<rparr> (pending D)\<rparr>,
                            d1)))))"

definition durable_is_revoked ::
  "'b blacklist \<Rightarrow> bl_ctx \<Rightarrow> uuid \<Rightarrow> 'b durable \<times> database
   \<Rightarrow> (unit + bool) \<times> ('b durable \<times> database)" where
  "durable_is_revoked B bx jti s =
     (case s of (D, d) \<Rightarrow>
        (let live = (case map_of (pending D) jti of None \<Rightarrow> None | Some e \<Rightarrow> Some (entry_live (bx_clk bx 0) e))
         in if live = Some True then (Inr True, (D, d))
            else
              (let D1 = (if live = Some False then D\<lparr>pending := hm_remove jti (pending D)\<rparr> else D)
               in (case bl_is_revoked B (bx_inner bx 0) jti (inner D1) of
                     (r, b) \<Rightarrow> (r, (D1\<lparr>inner := b\<rparr>, d))))))"

text \<open>
  \<open>flush_pending\<close>, in its parts: the batch of rows it works on; the loop that retries them
  against the inner backend (the rows that went through, and the number that did not);
  and the removal of the rows that went through from the table and the pending set.
\<close>

definition flush_batch :: "bl_ctx \<Rightarrow> database \<Rightarrow> (pg_error + (uuid \<times> int) list) \<times> database" where
  "flush_batch bx d =
     (case pg_run (bx_pg bx 0) (bx_now bx 0) delete_outbox_expired d of
        (Inl e, d1) \<Rightarrow> (Inl e, d1)
      | (Inr _, d1) \<Rightarrow> pg_run (bx_pg bx 1) (bx_now bx 1) (select_outbox_batch FLUSH_BATCH_SIZE) d1)"

fun flush_rows ::
  "'b blacklist \<Rightarrow> (nat \<Rightarrow> call_ctx) \<Rightarrow> nat \<Rightarrow> (uuid \<times> int) list \<Rightarrow> 'b \<Rightarrow> uuid list \<times> nat \<times> 'b" where
  "flush_rows B cxs i [] b = ([], 0, b)"
| "flush_rows B cxs i ((jti, ttl_secs) # rows) b =
     (case bl_revoke B (cxs i) jti (word_of_int ttl_secs) b of
        (Inr _, b1) \<Rightarrow>
          (case flush_rows B cxs (Suc i) rows b1 of (flushed, remaining, b2) \<Rightarrow>
             (jti # flushed, remaining, b2))
      | (Inl _, b1) \<Rightarrow>
          (case flush_rows B cxs (Suc i) rows b1 of (flushed, remaining, b2) \<Rightarrow>
             (flushed, Suc remaining, b2)))"

definition flush_done ::
  "bl_ctx \<Rightarrow> uuid list \<Rightarrow> 'b durable \<times> database \<Rightarrow> (pg_error + unit) \<times> ('b durable \<times> database)" where
  "flush_done bx flushed s =
     (case s of (D, d) \<Rightarrow>
        (if flushed = [] then (Inr (), (D, d))
         else
           (case pg_run (bx_pg bx 2) (bx_now bx 2) (delete_outbox_any flushed) d of
              (Inl e, d1) \<Rightarrow> (Inl e, (D, d1))
            | (Inr _, d1) \<Rightarrow>
                (Inr (),
                 (D\<lparr>pending := hm_retain (\<lambda>jti entry. jti \<notin> set flushed \<and> entry_live (bx_clk bx 0) entry)
                                (pending D)\<rparr>, d1)))))"

definition flush_pending ::
  "'b blacklist \<Rightarrow> bl_ctx \<Rightarrow> 'b durable \<times> database
   \<Rightarrow> (pg_error + nat) \<times> ('b durable \<times> database)" where
  "flush_pending B bx s =
     (case s of (D, d) \<Rightarrow>
        (case flush_batch bx d of
           (Inl e, d1) \<Rightarrow> (Inl e, (D, d1))
         | (Inr rows, d1) \<Rightarrow>
             (case flush_rows B (bx_inner bx) 0 rows (inner D) of
                (flushed, remaining, b) \<Rightarrow>
                  (case flush_done bx flushed (D\<lparr>inner := b\<rparr>, d1) of
                     (Inl e, s1) \<Rightarrow> (Inl e, s1)
                   | (Inr _, s1) \<Rightarrow> (Inr remaining, s1)))))"

definition pending_count :: "time \<Rightarrow> 'b durable \<Rightarrow> nat \<times> 'b durable" where
  "pending_count now D =
     (let m = prune_pending now (pending D) in (length m, D\<lparr>pending := m\<rparr>))"


section \<open>The choice of the backend\<close>

datatype blacklist_backend =
    Memory_Blacklist memory_blacklist
  | Durable_Redis_Blacklist u64

text \<open>
  \<open>RedisAccessTokenBlacklist::connect\<close> only fails where the client library rejects the URL or
  the lazy connection manager (the parameters \<open>open_client\<close> and \<open>lazy_manager\<close>); the
  outcome of the startup PING is not looked at.  The backend starts with its error
  counter at zero.
\<close>

definition RedisAccessTokenBlacklist_connect ::
  "(string \<Rightarrow> string + unit) \<Rightarrow> (string \<Rightarrow> string + unit) \<Rightarrow> unit redis_outcome \<Rightarrow> string \<Rightarrow> string + u64" where
  "RedisAccessTokenBlacklist_connect open_client lazy_manager ping url =
     bindR (open_client url) (\<lambda>_. bindR (lazy_manager url) (\<lambda>_. Inr 0))"

text \<open>The backend, the handle of its error counter, and whether there is a flush worker to
  spawn.\<close>

definition build_access_token_blacklist ::
  "(string \<Rightarrow> string + u64) \<Rightarrow> string option \<Rightarrow> blacklist_backend \<times> u64 option \<times> bool" where
  "build_access_token_blacklist connect_with redis_url =
     (case redis_url of
        Some url \<Rightarrow>
          (case connect_with url of
             Inr errors \<Rightarrow> (Durable_Redis_Blacklist errors, Some errors, True)
           | Inl e \<Rightarrow> (Memory_Blacklist [], None, False))
      | None \<Rightarrow> (Memory_Blacklist [], None, False))"


section \<open>The contract of a backend\<close>

text \<open>The operations a client makes, and what the queries among them answered.\<close>

datatype bl_op = Revoke call_ctx uuid u64 | Query call_ctx uuid

fun run_bl :: "'b blacklist \<Rightarrow> bl_op list \<Rightarrow> 'b \<Rightarrow> (uuid \<times> (unit + bool)) list \<times> 'b" where
  "run_bl B [] b = ([], b)"
| "run_bl B (Revoke cx jti ttl # ops) b = run_bl B ops (snd (bl_revoke B cx jti ttl b))"
| "run_bl B (Query cx jti # ops) b =
     (case bl_is_revoked B cx jti b of (r, b1) \<Rightarrow>
        (case run_bl B ops b1 of (outs, b2) \<Rightarrow> ((jti, r) # outs, b2)))"

text \<open>An operation before the deadline \<open>d\<close> of the token \<open>jti\<close>: a revocation of that token
  asks for a lifetime that reaches the deadline.\<close>

definition op_before ::
  "(call_ctx \<Rightarrow> time) \<Rightarrow> (call_ctx \<Rightarrow> time) \<Rightarrow> (u64 \<Rightarrow> bool) \<Rightarrow> time \<Rightarrow> uuid \<Rightarrow> bl_op \<Rightarrow> bool" where
  "op_before early late ttl_ok d jti x =
     (case x of
        Revoke cx jti' ttl \<Rightarrow>
          early cx \<le> late cx \<and> late cx < d \<and> ttl_ok ttl \<and> (jti' = jti \<longrightarrow> d \<le> early cx + secs (uint ttl))
      | Query cx jti' \<Rightarrow> early cx \<le> late cx \<and> late cx < d)"

text \<open>
  \<open>denied t jti b\<close>: a lookup at time \<open>t\<close> that reaches the backend finds \<open>jti\<close> revoked.
  \<open>early\<close> and \<open>late\<close> are the first and last clock reading of a call; \<open>ttl_ok\<close> are the
  lifetimes the backend can store.
\<close>

locale revocation_backend =
  fixes B :: "'b blacklist"
    and denied :: "time \<Rightarrow> uuid \<Rightarrow> 'b \<Rightarrow> bool"
    and ok :: "'b \<Rightarrow> bool"
    and ttl_ok :: "u64 \<Rightarrow> bool"
    and early :: "call_ctx \<Rightarrow> time"
    and late :: "call_ctx \<Rightarrow> time"
  assumes revoke_ok: "ok b \<Longrightarrow> ok (snd (bl_revoke B cx jti ttl b))"
    and query_ok: "ok b \<Longrightarrow> ok (snd (bl_is_revoked B cx jti b))"
    and denied_earlier: "denied t jti b \<Longrightarrow> t' \<le> t \<Longrightarrow> denied t' jti b"
    and revoke_denies:
      "ok b \<Longrightarrow> fst (bl_revoke B cx jti ttl b) = Inr () \<Longrightarrow> ttl_ok ttl \<Longrightarrow> late cx \<le> t \<Longrightarrow>
       t < early cx + secs (uint ttl) \<Longrightarrow> denied t jti (snd (bl_revoke B cx jti ttl b))"
    and revoke_keeps:
      "ok b \<Longrightarrow> denied t jti b \<Longrightarrow> late cx \<le> t \<Longrightarrow> ttl_ok ttl \<Longrightarrow>
       jti' \<noteq> jti \<or> t < early cx + secs (uint ttl) \<Longrightarrow>
       denied t jti (snd (bl_revoke B cx jti' ttl b))"
    and query_keeps:
      "ok b \<Longrightarrow> denied t jti b \<Longrightarrow> late cx \<le> t \<Longrightarrow> denied t jti (snd (bl_is_revoked B cx jti' b))"
    and query_true:
      "ok b \<Longrightarrow> denied (late cx) jti b \<Longrightarrow> early cx \<le> late cx \<Longrightarrow>
       fst (bl_is_revoked B cx jti b) \<in> {Inr True, Inl ()}"
    and query_sound:
      "ok b \<Longrightarrow> fst (bl_is_revoked B cx jti b) = Inr True \<Longrightarrow> denied (early cx) jti b"
begin

lemma stays_revoked:
  assumes "ok b" and "denied (d - 1) jti b" and "\<forall>x \<in> set ops. op_before early late ttl_ok d jti x"
    and "(jti, r) \<in> set (fst (run_bl B ops b))"
  shows "r \<in> {Inr True, Inl ()}"
  using assms
proof (induction ops arbitrary: b)
  case Nil
  then show ?case by simp
next
  case (Cons x ops)
  show ?case
  proof (cases x)
    case (Revoke cx jti' ttl)
    with Cons.prems(3) have c: "late cx < d" "ttl_ok ttl" "jti' = jti \<longrightarrow> d \<le> early cx + secs (uint ttl)"
      by (simp_all add: op_before_def)
    have "denied (d - 1) jti (snd (bl_revoke B cx jti' ttl b))"
      using c by (intro revoke_keeps Cons.prems(1,2)) auto
    then show ?thesis
      using Cons.IH [OF revoke_ok [OF Cons.prems(1)]] Cons.prems(3,4) Revoke by simp
  next
    case (Query cx jti')
    with Cons.prems(3) have c: "late cx < d" "early cx \<le> late cx"
      by (simp_all add: op_before_def)
    have d: "denied (d - 1) jti (snd (bl_is_revoked B cx jti' b))"
      using c by (intro query_keeps Cons.prems(1,2)) auto
    have "fst (bl_is_revoked B cx jti b) \<in> {Inr True, Inl ()}"
      using c denied_earlier [OF Cons.prems(2), of "late cx"] by (intro query_true Cons.prems(1)) auto
    then show ?thesis
      using Cons.IH [OF query_ok [OF Cons.prems(1)] d] Cons.prems(3,4) Query
      by (auto simp: case_prod_beta)
  qed
qed

end


section \<open>The backends meet it\<close>

definition mb_denied :: "time \<Rightarrow> uuid \<Rightarrow> memory_blacklist \<Rightarrow> bool" where
  "mb_denied t jti m =
     (case map_of m jti of None \<Rightarrow> False | Some e \<Rightarrow> duration_since t (revoked_at e) < rv_ttl e)"

lemma duration_since_mono: "t' \<le> t \<Longrightarrow> duration_since t' x \<le> duration_since t x"
  by (simp add: duration_since_def)

lemma duration_since_lt: "t < x + y \<Longrightarrow> 0 < y \<Longrightarrow> duration_since t x < y"
  by (simp add: duration_since_def)

lemma mb_denied_earlier: "mb_denied t jti m \<Longrightarrow> t' \<le> t \<Longrightarrow> mb_denied t' jti m"
  by (auto simp: mb_denied_def duration_since_def split: option.splits)

lemma mb_denied_revoke:
  "hm_ok m \<Longrightarrow> mb_denied t k (snd (mb_revoke cx jti ttl m)) =
     (if k = jti then duration_since t (cx_clk cx 0) < secs (uint ttl)
      else mb_denied (cx_clk cx 0) k m \<and> mb_denied t k m)"
  by (auto simp: mb_revoke_def Let_def map_of_hm hm_ok_ops mb_denied_def split: option.splits)

lemma mb_is_revoked_eq:
  "mb_is_revoked cx jti m =
     (if mb_denied (cx_clk cx 0) jti m then (Inr True, m)
      else if map_of m jti = None then (Inr False, m)
      else if mb_denied (cx_clk cx 1) jti m then (Inr True, m)
      else (Inr False, hm_remove jti m))"
  by (auto simp: mb_is_revoked_def mb_fast_def mb_slow_def mb_denied_def split: option.splits)

lemma mb_denied_remove: "mb_denied t k (hm_remove jti m) = (k \<noteq> jti \<and> mb_denied t k m)"
  by (simp add: mb_denied_def map_of_hm)

abbreviation clk_min :: "call_ctx \<Rightarrow> time" where
  "clk_min cx \<equiv> min (cx_clk cx 0) (cx_clk cx 1)"

abbreviation clk_max :: "call_ctx \<Rightarrow> time" where
  "clk_max cx \<equiv> max (cx_clk cx 0) (cx_clk cx 1)"

interpretation memory_bl:
  revocation_backend memory_backend mb_denied hm_ok "\<lambda>ttl. True" clk_min clk_max
proof
  fix m :: memory_blacklist and cx jti ttl t t' jti'
  show "hm_ok m \<Longrightarrow> hm_ok (snd (bl_revoke memory_backend cx jti ttl m))"
    by (simp add: memory_backend_def mb_revoke_def Let_def hm_ok_ops)
  show "hm_ok m \<Longrightarrow> hm_ok (snd (bl_is_revoked memory_backend cx jti m))"
    by (simp add: memory_backend_def mb_is_revoked_eq hm_ok_ops)
  show "mb_denied t jti m \<Longrightarrow> t' \<le> t \<Longrightarrow> mb_denied t' jti m"
    by (rule mb_denied_earlier)
  have new: "duration_since t (cx_clk cx 0) < secs (uint ttl)"
    if "clk_max cx \<le> t" "t < clk_min cx + secs (uint ttl)"
    using that by (simp add: duration_since_def)
  have old: "mb_denied (cx_clk cx 0) k m" if "mb_denied t k m" "clk_max cx \<le> t" for k
    using that by (auto intro: mb_denied_earlier)
  show "mb_denied t jti (snd (bl_revoke memory_backend cx jti ttl m))"
    if "hm_ok m" "clk_max cx \<le> t" "t < clk_min cx + secs (uint ttl)"
    using that new by (simp add: memory_backend_def mb_denied_revoke)
  show "mb_denied t jti (snd (bl_revoke memory_backend cx jti' ttl m))"
    if "hm_ok m" "mb_denied t jti m" "clk_max cx \<le> t"
      "jti' \<noteq> jti \<or> t < clk_min cx + secs (uint ttl)"
    using that new old by (simp add: memory_backend_def mb_denied_revoke)
  show "mb_denied t jti (snd (bl_is_revoked memory_backend cx jti' m))"
    if "mb_denied t jti m" "clk_max cx \<le> t"
    using that old by (auto simp: memory_backend_def mb_is_revoked_eq mb_denied_remove)
  show "fst (bl_is_revoked memory_backend cx jti m) \<in> {Inr True, Inl ()}"
    if "mb_denied (clk_max cx) jti m"
    using that mb_denied_earlier [OF that, of "cx_clk cx 0"]
    by (simp add: memory_backend_def mb_is_revoked_eq)
  show "mb_denied (clk_min cx) jti m"
    if "fst (bl_is_revoked memory_backend cx jti m) = Inr True"
    using that mb_denied_earlier [of "cx_clk cx 0" jti m "clk_min cx"]
      mb_denied_earlier [of "cx_clk cx 1" jti m "clk_min cx"]
    by (simp add: memory_backend_def mb_is_revoked_eq split: if_splits)
qed


text \<open>The Redis backend, whenever the server behaves as documented and \<open>show_uuid\<close> tells
  ids apart.\<close>

definition rb_denied :: "'r redis_view \<Rightarrow> (uuid \<Rightarrow> string) \<Rightarrow> time \<Rightarrow> uuid \<Rightarrow> u64 \<times> 'r \<Rightarrow> bool" where
  "rb_denied V show_uuid t jti s \<longleftrightarrow> V t (rb_key show_uuid jti) (snd s) \<noteq> None"

lemma rb_key_inj: "inj show_uuid \<Longrightarrow> rb_key show_uuid a = rb_key show_uuid b \<longleftrightarrow> a = b"
  by (auto simp: rb_key_def dest: injD)

lemma redis_call_state:
  "snd (redis_call lnk f r) = r \<or> snd (redis_call lnk f r) = snd (f r)"
  by (cases lnk) (auto split: prod.splits option.splits)

lemma rb_revoke_state:
  assumes "ttl \<noteq> 0"
  shows "snd (snd (rb_revoke R show_uuid cx jti ttl (n, r))) =
           snd (redis_call (cx_link cx) (SET_EX R (cx_srv cx) (rb_key show_uuid jti) ''1'' ttl) r)"
  using assms by (auto simp: rb_revoke_def split: redis_outcome.splits prod.splits)

lemma rb_query_state:
  "snd (snd (rb_is_revoked R show_uuid cx jti (n, r))) =
     snd (redis_call (cx_link cx) (EXISTS R (cx_srv cx) (rb_key show_uuid jti)) r)"
  by (auto simp: rb_is_revoked_def split: redis_outcome.splits prod.splits)

lemma rb_revoke_Inr:
  assumes "ttl \<noteq> 0" and "fst (rb_revoke R show_uuid cx jti ttl (n, r)) = Inr ()"
  shows "cx_link cx = Up"
  using assms by (cases "cx_link cx") (auto simp: rb_revoke_def)


lemma set_ex_denies:
  assumes "set_ex_law R V" and "ttl \<noteq> 0" and "ttl < 2 ^ 31"
    and "t \<le> t'" and "t' < t + secs (uint ttl)"
  shows "V t' k (snd (SET_EX R t k x ttl r)) \<noteq> None"
proof -
  have "0 < ttl" using assms(2) by (simp add: word_gt_0)
  then obtain v where "sets_key V t k (Some (v, Some (t + secs (uint ttl)))) r (snd (SET_EX R t k x ttl r))"
    using assms(1,3) unfolding set_ex_law_def by blast
  then show ?thesis using sets_keyD(1) assms(4,5) by (fastforce simp: seen_at_def)
qed

lemma set_ex_others:
  assumes "set_ex_law R V" and "ttl \<noteq> 0" and "ttl < 2 ^ 31" and "t \<le> t'" and "k' \<noteq> k"
  shows "V t' k' (snd (SET_EX R t k x ttl r)) = V t' k' r"
proof -
  have "0 < ttl" using assms(2) by (simp add: word_gt_0)
  then obtain v where "sets_key V t k (Some (v, Some (t + secs (uint ttl)))) r (snd (SET_EX R t k x ttl r))"
    using assms(1,3) unfolding set_ex_law_def by blast
  then show ?thesis using sets_keyD(2) assms(4,5) by metis
qed

lemma redis_bl:
  assumes C: "redis_contract R V" and inj: "inj show_uuid"
  shows "revocation_backend (redis_backend R show_uuid) (rb_denied V show_uuid) (\<lambda>_. True)
           (\<lambda>ttl. ttl < 2 ^ 31) cx_srv cx_srv"
proof (rule revocation_backend.intro, goal_cases)
  case (3 t jti b t')
  have "V t (rb_key show_uuid jti) (snd b) = seen_at t (V t' (rb_key show_uuid jti) (snd b))"
    using C 3(2) unfolding redis_contract_def expiry_law_def by blast
  then show ?case using 3(1) by (auto simp: rb_denied_def dest: seen_at_Some)
next
  case (4 b cx jti ttl t)
  obtain n r where b: "b = (n, r)" by fastforce
  have ttl: "ttl \<noteq> 0" using 4(4,5) by (auto simp: secs_def)
  have up: "cx_link cx = Up"
    using rb_revoke_Inr [OF ttl] 4(2) b by (simp add: redis_backend_def)
  have "set_ex_law R V" using C by (simp add: redis_contract_def)
  from set_ex_denies [OF this ttl 4(3-5), of "rb_key show_uuid jti" "''1''" r]
  show ?case
    using b rb_revoke_state [OF ttl, of R show_uuid cx jti n r] up
    by (auto simp: rb_denied_def redis_backend_def split: prod.splits option.splits)
next
  case (5 b t jti cx ttl jti')
  obtain n r where b: "b = (n, r)" by fastforce
  have S: "set_ex_law R V" using C by (simp add: redis_contract_def)
  show ?case
  proof (cases "ttl = 0")
    case True
    then show ?thesis using 5(2) by (simp add: redis_backend_def rb_revoke_def)
  next
    case False
    have "V t (rb_key show_uuid jti)
            (snd (SET_EX R (cx_srv cx) (rb_key show_uuid jti') ''1'' ttl r)) \<noteq> None"
    proof (cases "jti' = jti")
      case True
      then show ?thesis using set_ex_denies [OF S False 5(4,3)] 5(5) by simp
    next
      case neq: False
      then have "rb_key show_uuid jti \<noteq> rb_key show_uuid jti'" using rb_key_inj [OF inj] by simp
      then show ?thesis using set_ex_others [OF S False 5(4,3)] 5(2) b by (simp add: rb_denied_def)
    qed
    then show ?thesis
      using redis_call_state [of "cx_link cx"
              "SET_EX R (cx_srv cx) (rb_key show_uuid jti') ''1'' ttl" r]
        rb_revoke_state [OF False, of R show_uuid cx jti' n r] 5(2) b
      by (auto simp: rb_denied_def redis_backend_def)
  qed
next
  case (6 b t jti cx jti')
  obtain n r where b: "b = (n, r)" by fastforce
  have "keeps_keys V (cx_srv cx) r (snd (EXISTS R (cx_srv cx) (rb_key show_uuid jti') r))"
    using C by (simp add: redis_contract_def exists_law_def)
  then show ?case
    using redis_call_state [of "cx_link cx" "EXISTS R (cx_srv cx) (rb_key show_uuid jti')" r]
      rb_query_state [of R show_uuid cx jti' n r] 6(2,3) b
    by (auto simp: rb_denied_def redis_backend_def keeps_keys_def)
next
  case (7 b cx jti)
  obtain n r where b: "b = (n, r)" by fastforce
  have "fst (EXISTS R (cx_srv cx) (rb_key show_uuid jti) r) =
          Some (V (cx_srv cx) (rb_key show_uuid jti) r \<noteq> None)"
    using C by (simp add: redis_contract_def exists_law_def)
  then show ?case
    using 7(2) b by (cases "cx_link cx")
      (auto simp: rb_denied_def redis_backend_def rb_is_revoked_def split: prod.splits option.splits)
next
  case (8 b cx jti)
  obtain n r where b: "b = (n, r)" by fastforce
  have "fst (EXISTS R (cx_srv cx) (rb_key show_uuid jti) r) =
          Some (V (cx_srv cx) (rb_key show_uuid jti) r \<noteq> None)"
    using C by (simp add: redis_contract_def exists_law_def)
  then show ?case
    using 8(2) b by (cases "cx_link cx")
      (auto simp: rb_denied_def redis_backend_def rb_is_revoked_def split: prod.splits option.splits)
qed simp_all



section \<open>Revocations stick\<close>

lemma mb_never_fails: "(jti, r) \<in> set (fst (run_bl memory_backend ops m)) \<Longrightarrow> r \<noteq> Inl ()"
proof (induction ops arbitrary: m)
  case (Cons x ops)
  have q: "\<exists>b m'. mb_is_revoked cx k m = (Inr b, m')" for cx k m
    by (auto simp: mb_is_revoked_eq)
  show ?case
  proof (cases x)
    case (Revoke cx k ttl)
    with Cons show ?thesis by simp
  next
    case (Query cx k)
    obtain b m' where "mb_is_revoked cx k m = (Inr b, m')" using q by blast
    with Cons Query show ?thesis by (auto simp: memory_backend_def case_prod_beta)
  qed
qed simp

text \<open>
  C25. A revocation sticks in memory.  After \<open>revoke(jti, ttl)\<close> every lookup of that token
  before its deadline finds it revoked, whatever other revocations (which sweep the map)
  and lookups (which remove expired entries) happen in between.
\<close>

theorem memory_revocation_sticks:
  assumes "hm_ok m" and "clk_max cx < d" and "d \<le> clk_min cx + secs (uint ttl)"
    and "\<forall>x \<in> set ops. op_before clk_min clk_max (\<lambda>_. True) d jti x"
    and "(jti, r) \<in> set (fst (run_bl memory_backend (Revoke cx jti ttl # ops) m))"
  shows "r = Inr True"
proof -
  let ?m = "snd (bl_revoke memory_backend cx jti ttl m)"
  have ok: "hm_ok ?m" by (rule memory_bl.revoke_ok [OF assms(1)])
  have "fst (bl_revoke memory_backend cx jti ttl m) = Inr ()"
    by (simp add: memory_backend_def mb_revoke_def Let_def)
  then have "mb_denied (d - 1) jti ?m"
    using assms(2,3) by (intro memory_bl.revoke_denies assms(1)) auto
  then have "r \<in> {Inr True, Inl ()}"
    using memory_bl.stays_revoked [OF ok _ assms(4)] assms(5) by simp
  then show ?thesis using mb_never_fails assms(5) by fastforce
qed

theorem memory_revocation_sticks_witness:
  "\<exists>r. (7, r) \<in> set (fst (run_bl memory_backend
      [Revoke (ctx_at 10) 7 60, Revoke (ctx_at 20) 8 1, Query (ctx_at 30) 7] [])) \<and> r = Inr True"
proof -
  let ?ops = "[Revoke (ctx_at 20) 8 1, Query (ctx_at 30) 7]"
  have "(7, Inr True) \<in> set (fst (run_bl memory_backend (Revoke (ctx_at 10) 7 60 # ?ops) []))"
    by code_simp
  then show ?thesis
    using memory_revocation_sticks [of "[]" "ctx_at 10" 100 60 ?ops 7 "Inr True"]
    by (auto simp: hm_ok_def secs_def op_before_def)
qed



text \<open>
  \<open>is_revoked\<close> gives up its lock between finding an expired entry and removing it.  A
  revocation of the same token by another task in between is not undone: the second look
  finds the new entry and leaves it in place.
\<close>

theorem re_revocation_not_undone:
  assumes "mb_fast now0 jti m = None" and "hm_ok m" and "now1 < cx_clk cx 0 + secs (uint ttl)"
    and "0 < ttl"
  shows "fst (mb_slow now1 jti (snd (mb_revoke cx jti ttl m))) = True \<and>
         mb_denied now1 jti (snd (mb_slow now1 jti (snd (mb_revoke cx jti ttl m))))"
proof -
  have "0 < secs (uint ttl)" using assms(4) by (simp add: secs_def word_less_def)
  then have "mb_denied now1 jti (snd (mb_revoke cx jti ttl m))"
    using assms(2,3) by (simp add: mb_denied_revoke duration_since_lt)
  then show ?thesis by (auto simp: mb_slow_def mb_denied_def split: option.splits)
qed

theorem re_revocation_not_undone_witness:
  "fst (mb_slow 70 7 (snd (mb_revoke (ctx_at 65) 7 60 [(7, \<lparr>revoked_at = 0, rv_ttl = 60\<rparr>)]))) = True"
  using re_revocation_not_undone [of 64 7 "[(7, \<lparr>revoked_at = 0, rv_ttl = 60\<rparr>)]" 70 "ctx_at 65" 60]
  by (simp add: mb_fast_def duration_since_def hm_ok_def secs_def)

end
