(* ===== verification/Net.thy ===== *)
theory Net
  imports Rust_Std
begin

text \<open>
  Client addresses: \<open>resolve_client_ip\<close> of \<open>crates/shared/src/net.rs\<close> and the guard of the
  metrics endpoint of \<open>crates/infrastructure/src/metrics_guard.rs\<close> that uses it; and the
  shape of the responses every handler returns.
\<close>

section \<open>Requests and responses\<close>

text \<open>
  A header lookup as the code does it, \<open>headers.get(name).and_then(|v| v.to_str().ok())\<close>:
  the text of the first header of that name, if it has one and it is visible ASCII.
\<close>

type_synonym headers = "string \<Rightarrow> string option"

text \<open>A response: a status with a JSON body of the handler's own, a status with the JSON
  body \<open>ErrorResponse\<close>, or a status alone.\<close>

datatype 'b response =
    Json_Response nat 'b
  | Error_Response nat string
  | Status_Response nat

fun status :: "'b response \<Rightarrow> nat" where
  "status (Json_Response n b) = n"
| "status (Error_Response n e) = n"
| "status (Status_Response n) = n"

text \<open>The text of ids and timestamps in a response, \<open>Uuid::to_string\<close> and
  \<open>DateTime::to_rfc3339\<close>, and an instance of it.\<close>

record api_text =
  at_uuid :: "uuid \<Rightarrow> string"
  at_rfc3339 :: "time \<Rightarrow> string"

definition demo_text :: api_text where
  "demo_text = \<lparr>at_uuid = (\<lambda>u. ''id''), at_rfc3339 = (\<lambda>t. ''t'')\<rparr>"


section \<open>The client address\<close>

text \<open>The loop over the candidates, rightmost first: the first one that parses and is not
  a trusted proxy.\<close>

fun first_untrusted :: "ip_addr list \<Rightarrow> string list \<Rightarrow> ip_addr option" where
  "first_untrusted trusted [] = None"
| "first_untrusted trusted (candidate # rest) =
     (case parse_ip (trim candidate) of
        None \<Rightarrow> first_untrusted trusted rest
      | Some ip \<Rightarrow> if ip \<notin> set trusted then Some ip else first_untrusted trusted rest)"

definition forwarded_ip :: "headers \<Rightarrow> ip_addr list \<Rightarrow> ip_addr option" where
  "forwarded_ip headers trusted =
     (case headers ''X-Forwarded-For'' of
        None \<Rightarrow> None
      | Some value \<Rightarrow> first_untrusted trusted (rev (split_char CHR '','' value)))"

definition resolve_client_ip :: "ip_addr \<Rightarrow> headers \<Rightarrow> ip_addr list \<Rightarrow> ip_addr" where
  "resolve_client_ip peer_ip headers trusted_proxies =
     (if peer_ip \<notin> set trusted_proxies then peer_ip
      else (case forwarded_ip headers trusted_proxies of
              Some ip \<Rightarrow> ip
            | None \<Rightarrow>
                (case Option.bind (headers ''X-Real-IP'') parse_ip of
                   Some ip \<Rightarrow> ip
                 | None \<Rightarrow> peer_ip)))"


section \<open>The metrics guard\<close>

record metrics_guard_config =
  allowed_ips :: "ip_addr list"
  trusted_proxy_ips :: "ip_addr list"

definition is_metrics_access_allowed :: "ip_addr \<Rightarrow> ip_addr list \<Rightarrow> bool" where
  "is_metrics_access_allowed ip allowed =
     (if allowed = [] then True else if is_loopback ip then True else ip \<in> set allowed)"

text \<open>The middleware: \<open>None\<close> passes the request on to the next handler.\<close>

definition metrics_ip_allowlist ::
  "metrics_guard_config \<Rightarrow> ip_addr \<Rightarrow> headers \<Rightarrow> 'b response option" where
  "metrics_ip_allowlist config peer headers =
     (let ip = resolve_client_ip peer headers (trusted_proxy_ips config)
      in if is_metrics_access_allowed ip (allowed_ips config) then None
         else Some (Error_Response 403 ''Not allowed''))"


section \<open>What a forwarded header can and cannot do\<close>

lemma first_untrusted_append:
  "first_untrusted trusted (xs @ ys) =
     (case first_untrusted trusted xs of None \<Rightarrow> first_untrusted trusted ys | Some ip \<Rightarrow> Some ip)"
  by (induction xs) (auto split: option.splits)

lemma first_untrusted_Some:
  "first_untrusted trusted xs = Some ip \<Longrightarrow>
     ip \<notin> set trusted \<and> (\<exists>c \<in> set xs. parse_ip (trim c) = Some ip)"
  by (induction xs) (auto split: option.splits if_splits)

lemma first_untrusted_None_iff:
  "first_untrusted trusted xs = None \<longleftrightarrow>
     (\<forall>c \<in> set xs. \<forall>ip. parse_ip (trim c) = Some ip \<longrightarrow> ip \<in> set trusted)"
  by (induction xs) (auto split: option.splits if_splits)

lemma forwarded_ip_suffix:
  assumes "headers ''X-Forwarded-For'' = Some (spoofed @ CHR '','' # chain)"
    and "first_untrusted trusted (rev (split_char CHR '','' chain)) = Some ip"
  shows "forwarded_ip headers trusted = Some ip"
  using assms by (simp add: forwarded_ip_def split_char_append_sep first_untrusted_append)

lemma first_untrusted_boundary:
  assumes "\<forall>c \<in> set hops. \<exists>ip \<in> set trusted. parse_ip (trim c) = Some ip"
    and "parse_ip (trim client) = Some ip" and "ip \<notin> set trusted"
  shows "first_untrusted trusted (hops @ client # rest) = Some ip"
  using assms by (induction hops) auto



lemma resolve_client_ip_cases:
  "resolve_client_ip peer headers trusted = peer \<or>
   resolve_client_ip peer headers trusted \<notin> set trusted \<or>
   (peer \<in> set trusted \<and>
    Option.bind (headers ''X-Real-IP'') parse_ip = Some (resolve_client_ip peer headers trusted))"
  by (auto simp: resolve_client_ip_def forwarded_ip_def dest: first_untrusted_Some
           split: option.splits)

text \<open>
  C35. The metrics guard.  With a non-empty allow list a request reaches the endpoint
  exactly when the resolved address is loopback or listed, and then so is the TCP peer
  itself unless the peer is a trusted proxy: no header lets another host in.
\<close>

theorem metrics_guard_direct_peer:
  assumes "allowed_ips config \<noteq> []"
  shows "(metrics_ip_allowlist config peer headers = (None :: unit response option) \<longleftrightarrow>
            is_loopback (resolve_client_ip peer headers (trusted_proxy_ips config)) \<or>
            resolve_client_ip peer headers (trusted_proxy_ips config) \<in> set (allowed_ips config)) \<and>
         (metrics_ip_allowlist config peer headers = (None :: unit response option) \<longrightarrow>
            peer \<in> set (trusted_proxy_ips config) \<or> is_loopback peer \<or> peer \<in> set (allowed_ips config))"
  using assms
  by (auto simp: metrics_ip_allowlist_def is_metrics_access_allowed_def resolve_client_ip_def Let_def)

theorem metrics_guard_direct_peer_witness:
  "metrics_ip_allowlist \<lparr>allowed_ips = [V4 10 0 0 9], trusted_proxy_ips = []\<rparr> (V4 8 8 8 8)
     ((\<lambda>_. None)(''X-Real-IP'' \<mapsto> ''127.0.0.1'')) \<noteq> (None :: unit response option)"
  using metrics_guard_direct_peer
          [of "\<lparr>allowed_ips = [V4 10 0 0 9], trusted_proxy_ips = []\<rparr>" "V4 8 8 8 8"
              "(\<lambda>_. None)(''X-Real-IP'' \<mapsto> ''127.0.0.1'')"]
  by auto

end
