(* ===== verification/Jwt.thy ===== *)
theory Jwt
  imports Blacklist Net
begin

text \<open>
  Tokens: the verification and the request extractor of \<open>crates/shared/src/auth.rs\<close>, the
  claims of \<open>crates/auth/src/application/ports/jwt_service.rs\<close> and the service that mints and
  validates them, \<open>crates/auth/src/adapters/jwt_service.rs\<close>.  The jsonwebtoken crate and
  the text form of a UUID are parameters, with their documented behaviour as hypotheses.
\<close>

section \<open>Claims\<close>

text \<open>The payload of a token, a JSON object in the order of its fields.\<close>

datatype json = JString string | JInt int | JOther

type_synonym claims = "(string \<times> json) list"

text \<open>A derived \<open>Deserialize\<close> wants each of its fields exactly once, at the field's type.\<close>

definition field :: "string \<Rightarrow> claims \<Rightarrow> json option" where
  "field k c = (case filter (\<lambda>x. fst x = k) c of [x] \<Rightarrow> Some (snd x) | _ \<Rightarrow> None)"

fun as_string :: "json \<Rightarrow> string option" where
  "as_string (JString s) = Some s"
| "as_string _ = None"

fun as_i64 :: "json \<Rightarrow> int option" where
  "as_i64 (JInt n) = (if - (2 ^ 63) \<le> n \<and> n < 2 ^ 63 then Some n else None)"
| "as_i64 _ = None"

definition string_field :: "string \<Rightarrow> claims \<Rightarrow> string option" where
  "string_field k c = Option.bind (field k c) as_string"

definition i64_field :: "string \<Rightarrow> claims \<Rightarrow> int option" where
  "i64_field k c = Option.bind (field k c) as_i64"

text \<open>The text form of a UUID, as the uuid crate prints and parses it.\<close>

record uuid_lib =
  show_uuid :: "uuid \<Rightarrow> string"
  parse_uuid :: "string \<Rightarrow> uuid option"

definition uuid_laws :: "('u) uuid_lib_scheme \<Rightarrow> bool" where
  "uuid_laws U \<longleftrightarrow> (\<forall>u. parse_uuid U (show_uuid U u) = Some u)"

definition uuid_field :: "('u) uuid_lib_scheme \<Rightarrow> string \<Rightarrow> claims \<Rightarrow> uuid option" where
  "uuid_field U k c = Option.bind (string_field k c) (parse_uuid U)"

record access_token_claims =
  ac_sub :: uuid
  ac_jti :: uuid
  ac_iss :: string
  ac_aud :: string
  ac_exp :: int
  ac_iat :: int

record refresh_token_claims =
  rc_sub :: uuid
  rc_session_id :: uuid
  rc_iss :: string
  rc_aud :: string
  rc_exp :: int
  rc_iat :: int

definition access_object :: "('u) uuid_lib_scheme \<Rightarrow> access_token_claims \<Rightarrow> claims" where
  "access_object U a =
     [(''sub'', JString (show_uuid U (ac_sub a))), (''jti'', JString (show_uuid U (ac_jti a))),
      (''iss'', JString (ac_iss a)), (''aud'', JString (ac_aud a)),
      (''exp'', JInt (ac_exp a)), (''iat'', JInt (ac_iat a))]"

definition refresh_object :: "('u) uuid_lib_scheme \<Rightarrow> refresh_token_claims \<Rightarrow> claims" where
  "refresh_object U r =
     [(''sub'', JString (show_uuid U (rc_sub r))),
      (''session_id'', JString (show_uuid U (rc_session_id r))),
      (''iss'', JString (rc_iss r)), (''aud'', JString (rc_aud r)),
      (''exp'', JInt (rc_exp r)), (''iat'', JInt (rc_iat r))]"

definition access_of :: "('u) uuid_lib_scheme \<Rightarrow> claims \<Rightarrow> access_token_claims option" where
  "access_of U c =
     Option.bind (uuid_field U ''sub'' c) (\<lambda>sub.
     Option.bind (uuid_field U ''jti'' c) (\<lambda>jti.
     Option.bind (string_field ''iss'' c) (\<lambda>iss.
     Option.bind (string_field ''aud'' c) (\<lambda>aud.
     Option.bind (i64_field ''exp'' c) (\<lambda>exp.
     Option.bind (i64_field ''iat'' c) (\<lambda>iat.
       Some \<lparr>ac_sub = sub, ac_jti = jti, ac_iss = iss, ac_aud = aud, ac_exp = exp, ac_iat = iat\<rparr>))))))"

definition refresh_of :: "('u) uuid_lib_scheme \<Rightarrow> claims \<Rightarrow> refresh_token_claims option" where
  "refresh_of U c =
     Option.bind (uuid_field U ''sub'' c) (\<lambda>sub.
     Option.bind (uuid_field U ''session_id'' c) (\<lambda>sid.
     Option.bind (string_field ''iss'' c) (\<lambda>iss.
     Option.bind (string_field ''aud'' c) (\<lambda>aud.
     Option.bind (i64_field ''exp'' c) (\<lambda>exp.
     Option.bind (i64_field ''iat'' c) (\<lambda>iat.
       Some \<lparr>rc_sub = sub, rc_session_id = sid, rc_iss = iss, rc_aud = aud, rc_exp = exp,
             rc_iat = iat\<rparr>))))))"


section \<open>Verification\<close>

text \<open>
  \<open>Validation::new(HS256)\<close> with issuer, audience and required claims set; the leeway is the
  crate's default of 60 seconds.
\<close>

record validation =
  va_issuer :: "string list"
  va_audience :: "string list"
  va_required :: "string list"
  va_leeway :: int

text \<open>
  The jsonwebtoken crate: \<open>encode\<close> with the default header and an HMAC secret, and
  \<open>decode\<close> of a token at a clock reading (in seconds), which returns the payload when the
  signature verifies and the validation passes.
\<close>

record jwt_lib = uuid_lib +
  jwt_encode :: "string \<Rightarrow> claims \<Rightarrow> string option"
  jwt_decode :: "string \<Rightarrow> validation \<Rightarrow> int \<Rightarrow> string \<Rightarrow> claims option"

definition claims_accepted :: "validation \<Rightarrow> int \<Rightarrow> claims \<Rightarrow> bool" where
  "claims_accepted v now c \<longleftrightarrow>
     (\<exists>e. field ''exp'' c = Some (JInt e) \<and> 0 \<le> e \<and> now - va_leeway v \<le> e) \<and>
     (\<exists>iss. field ''iss'' c = Some (JString iss) \<and> iss \<in> set (va_issuer v)) \<and>
     (\<exists>aud. field ''aud'' c = Some (JString aud) \<and> aud \<in> set (va_audience v))"

text \<open>
  What the crate documents: a decoded token has not expired and carries an accepted issuer
  and audience; a token minted with the same secret decodes, while its claims are
  accepted, to the payload it was minted with, and to no other.
\<close>

definition jwt_laws :: "('u) jwt_lib_scheme \<Rightarrow> bool" where
  "jwt_laws J \<longleftrightarrow>
     uuid_laws J \<and>
     (\<forall>k v now t c e. jwt_decode J k v now t = Some c \<longrightarrow> field ''exp'' c = Some (JInt e) \<longrightarrow>
        now - va_leeway v \<le> e) \<and>
     (\<forall>k v now t c s. jwt_decode J k v now t = Some c \<longrightarrow> field ''iss'' c = Some (JString s) \<longrightarrow>
        s \<in> set (va_issuer v)) \<and>
     (\<forall>k v now t c s. jwt_decode J k v now t = Some c \<longrightarrow> field ''aud'' c = Some (JString s) \<longrightarrow>
        s \<in> set (va_audience v)) \<and>
     (\<forall>k v now t c. jwt_encode J k c = Some t \<longrightarrow> claims_accepted v now c \<longrightarrow>
        jwt_decode J k v now t = Some c) \<and>
     (\<forall>k v now t c c'. jwt_encode J k c = Some t \<longrightarrow> jwt_decode J k v now t = Some c' \<longrightarrow> c' = c)"

record jwt_verification =
  jv_secret :: string
  jv_issuer :: string
  jv_audience :: string

definition JwtVerification_new :: "string \<Rightarrow> string \<Rightarrow> string \<Rightarrow> jwt_verification" where
  "JwtVerification_new secret issuer audience =
     \<lparr>jv_secret = secret, jv_issuer = issuer, jv_audience = audience\<rparr>"

definition validation_of :: "jwt_verification \<Rightarrow> validation" where
  "validation_of jv =
     \<lparr>va_issuer = [jv_issuer jv], va_audience = [jv_audience jv],
      va_required = [''exp'', ''iss'', ''aud''], va_leeway = 60\<rparr>"

definition decode :: "('u) jwt_lib_scheme \<Rightarrow> jwt_verification \<Rightarrow> (claims \<Rightarrow> 'c option) \<Rightarrow> time \<Rightarrow> string
   \<Rightarrow> 'c option" where
  "decode J jv deserialize now token =
     Option.bind (jwt_decode J (jv_secret jv) (validation_of jv) (timestamp now) token) deserialize"


section \<open>The token service\<close>

text \<open>The environment of the auth service: the crates it calls, besides clock, ids and
  database.\<close>

record auth_env = env +
  jwt :: jwt_lib

record jwt_service =
  js_secret :: string
  js_verification :: jwt_verification
  js_access_expiry_minutes :: int
  js_refresh_expiry_days :: int

definition JwtServiceImpl_new :: "string \<Rightarrow> int \<Rightarrow> int \<Rightarrow> string \<Rightarrow> string \<Rightarrow> jwt_service" where
  "JwtServiceImpl_new secret access_expiry_minutes refresh_expiry_days issuer audience =
     \<lparr>js_secret = secret, js_verification = JwtVerification_new secret issuer audience,
      js_access_expiry_minutes = access_expiry_minutes,
      js_refresh_expiry_days = refresh_expiry_days\<rparr>"

definition access_claims :: "jwt_service \<Rightarrow> int \<Rightarrow> uuid \<Rightarrow> uuid \<Rightarrow> access_token_claims" where
  "access_claims js now user_id jti =
     \<lparr>ac_sub = user_id, ac_jti = jti, ac_iss = jv_issuer (js_verification js),
      ac_aud = jv_audience (js_verification js),
      ac_exp = i64 (now + i64 (js_access_expiry_minutes js * 60)), ac_iat = now\<rparr>"

definition refresh_claims :: "jwt_service \<Rightarrow> int \<Rightarrow> uuid \<Rightarrow> uuid \<Rightarrow> refresh_token_claims" where
  "refresh_claims js now user_id session_id =
     \<lparr>rc_sub = user_id, rc_session_id = session_id, rc_iss = jv_issuer (js_verification js),
      rc_aud = jv_audience (js_verification js),
      rc_exp = i64 (now + i64 (js_refresh_expiry_days js * 86400)), rc_iat = now\<rparr>"

definition mint :: "('u) jwt_lib_scheme \<Rightarrow> jwt_service \<Rightarrow> claims \<Rightarrow> auth_error + string" where
  "mint J js c = ok_or TokenGenerationFailed (jwt_encode J (js_secret js) c)"

text \<open>The tokens of a pair, as plain strings.\<close>

record jwt_pair =
  jp_access_token :: string
  jp_refresh_token :: string

definition generate_token_pair ::
  "('e) auth_env_scheme \<Rightarrow> jwt_service \<Rightarrow> uuid \<Rightarrow> uuid
   \<Rightarrow> ('z world_scheme, auth_error, jwt_pair) eff" where
  "generate_token_pair E js user_id session_id =
     bindE (nowE E) (\<lambda>t.
     bindE (now_v7E E) (\<lambda>jti.
     bindE (liftE (mint (jwt E) js (access_object (jwt E) (access_claims js (timestamp t) user_id jti))))
       (\<lambda>access.
     bindE (liftE (mint (jwt E) js (refresh_object (jwt E) (refresh_claims js (timestamp t) user_id session_id))))
       (\<lambda>refresh.
     returnE \<lparr>jp_access_token = access, jp_refresh_token = refresh\<rparr>))))"

definition validate_access_token ::
  "('e) auth_env_scheme \<Rightarrow> jwt_service \<Rightarrow> string
   \<Rightarrow> ('z world_scheme, auth_error, access_token_claims) eff" where
  "validate_access_token E js token =
     bindE (nowE E) (\<lambda>t.
     liftE (ok_or TokenVerificationFailed
       (decode (jwt E) (js_verification js) (access_of (jwt E)) t token)))"

definition validate_refresh_token ::
  "('e) auth_env_scheme \<Rightarrow> jwt_service \<Rightarrow> string
   \<Rightarrow> ('z world_scheme, auth_error, refresh_token_claims) eff" where
  "validate_refresh_token E js token =
     bindE (nowE E) (\<lambda>t.
     liftE (ok_or TokenVerificationFailed
       (decode (jwt E) (js_verification js) (refresh_of (jwt E)) t token)))"


section \<open>The request extractor\<close>

record authenticated_user =
  au_user_id :: uuid
  au_jti :: uuid
  au_exp :: int

datatype auth_rejection = AuthRejection

definition auth_rejection_response :: "auth_rejection \<Rightarrow> 'b response" where
  "auth_rejection_response r = Error_Response 401 ''Unauthorized''"

text \<open>\<open>dyn AccessTokenBlacklist\<close> as the handlers see it: two operations on the world.\<close>

record 'w token_blacklist =
  tb_revoke :: "uuid \<Rightarrow> u64 \<Rightarrow> ('w, unit, unit) eff"
  tb_is_revoked :: "uuid \<Rightarrow> ('w, unit, bool) eff"

text \<open>The \<open>Claims\<close> the extractor reads.\<close>

definition request_claims :: "('u) uuid_lib_scheme \<Rightarrow> claims \<Rightarrow> authenticated_user option" where
  "request_claims U c =
     Option.bind (uuid_field U ''sub'' c) (\<lambda>sub.
     Option.bind (uuid_field U ''jti'' c) (\<lambda>jti.
     Option.bind (i64_field ''exp'' c) (\<lambda>exp.
       Some \<lparr>au_user_id = sub, au_jti = jti, au_exp = exp\<rparr>)))"

definition bearer_token :: "headers \<Rightarrow> string option" where
  "bearer_token headers = Option.bind (headers ''Authorization'') (strip_prefix ''Bearer '')"

text \<open>The two extensions are absent where a route was built without its layers.\<close>

definition from_request_parts ::
  "('e) auth_env_scheme \<Rightarrow> headers \<Rightarrow> jwt_verification option \<Rightarrow> 'z world_scheme token_blacklist option
   \<Rightarrow> ('z world_scheme, auth_rejection, authenticated_user) eff" where
  "from_request_parts E headers verification blacklist =
     bindE (liftE (ok_or AuthRejection (bearer_token headers))) (\<lambda>token.
     bindE (liftE (ok_or AuthRejection verification)) (\<lambda>jv.
     bindE (liftE (ok_or AuthRejection blacklist)) (\<lambda>B.
     bindE (nowE E) (\<lambda>t.
     bindE (liftE (ok_or AuthRejection (decode (jwt E) jv (request_claims (jwt E)) t token))) (\<lambda>user.
     (\<lambda>w. (case tb_is_revoked B (au_jti user) w of
            (Inr True, w1) \<Rightarrow> (Inl AuthRejection, w1)
          | (Inr False, w1) \<Rightarrow> (Inr user, w1)
          | (Inl e, w1) \<Rightarrow> (Inr user, w1))))))))"



section \<open>Facts about claims\<close>

lemma field_simps [simp]:
  "field k [] = None"
  "field k ((k', v) # c) =
     (if k' = k then (if \<exists>x \<in> set c. fst x = k then None else Some v) else field k c)"
  by (auto simp: field_def filter_empty_conv split: list.split)

lemma typed_field_simps [simp]:
  "field k c = Some v \<Longrightarrow> string_field k c = as_string v"
  "field k c = Some v \<Longrightarrow> i64_field k c = as_i64 v"
  "field k c = None \<Longrightarrow> string_field k c = None"
  "field k c = None \<Longrightarrow> uuid_field U k c = None"
  by (simp_all add: string_field_def i64_field_def uuid_field_def)

lemma uuid_field_show [simp]:
  "uuid_laws U \<Longrightarrow> field k c = Some (JString (show_uuid U u)) \<Longrightarrow> uuid_field U k c = Some u"
  by (simp add: uuid_field_def uuid_laws_def)

lemma uuid_laws_jwt: "jwt_laws J \<Longrightarrow> uuid_laws J"
  by (simp add: jwt_laws_def)

text \<open>An i64 claim is within its range, so it survives the round trip.\<close>

lemma as_i64_i64 [simp]: "as_i64 (JInt (i64 n)) = Some (i64 n)"
  using i64_range [of n] by simp

lemma claims_round_trip:
  assumes "uuid_laws U"
  shows "request_claims U (access_object U a) =
           map_option (\<lambda>e. \<lparr>au_user_id = ac_sub a, au_jti = ac_jti a, au_exp = e\<rparr>)
             (as_i64 (JInt (ac_exp a)))"
    and "\<lbrakk>as_i64 (JInt (ac_exp a)) = Some (ac_exp a); as_i64 (JInt (ac_iat a)) = Some (ac_iat a)\<rbrakk>
         \<Longrightarrow> access_of U (access_object U a) = Some a"
    and "\<lbrakk>as_i64 (JInt (rc_exp r)) = Some (rc_exp r); as_i64 (JInt (rc_iat r)) = Some (rc_iat r)\<rbrakk>
         \<Longrightarrow> refresh_of U (refresh_object U r) = Some r"
  using assms
  by (simp_all add: access_object_def refresh_object_def request_claims_def access_of_def refresh_of_def
        map_conv_bind_option comp_def del: as_i64.simps)

lemma claims_confusion:
  "access_of U (refresh_object U r) = None"
  "request_claims U (refresh_object U r) = None"
  "refresh_of U (access_object U a) = None"
  by (simp_all add: access_object_def refresh_object_def request_claims_def access_of_def refresh_of_def
        split: Option.bind_splits)


section \<open>Facts about decoding\<close>

lemma jwt_lawsD:
  assumes "jwt_laws J"
  shows "jwt_decode J k v now t = Some c \<Longrightarrow> field ''exp'' c = Some (JInt e) \<Longrightarrow> now - va_leeway v \<le> e"
    and "jwt_decode J k v now t = Some c \<Longrightarrow> field ''iss'' c = Some (JString s) \<Longrightarrow> s \<in> set (va_issuer v)"
    and "jwt_decode J k v now t = Some c \<Longrightarrow> field ''aud'' c = Some (JString s) \<Longrightarrow> s \<in> set (va_audience v)"
    and "jwt_encode J k c = Some t \<Longrightarrow> claims_accepted v now c \<Longrightarrow> jwt_decode J k v now t = Some c"
    and "jwt_encode J k c = Some t \<Longrightarrow> jwt_decode J k v now t = Some c' \<Longrightarrow> c' = c"
proof -
  note laws = assms [unfolded jwt_laws_def, THEN conjunct2]
  show "jwt_decode J k v now t = Some c \<Longrightarrow> field ''exp'' c = Some (JInt e) \<Longrightarrow> now - va_leeway v \<le> e"
    by (rule laws [THEN conjunct1, rule_format])
  show "jwt_decode J k v now t = Some c \<Longrightarrow> field ''iss'' c = Some (JString s) \<Longrightarrow> s \<in> set (va_issuer v)"
    by (rule laws [THEN conjunct2, THEN conjunct1, rule_format])
  show "jwt_decode J k v now t = Some c \<Longrightarrow> field ''aud'' c = Some (JString s) \<Longrightarrow> s \<in> set (va_audience v)"
    by (rule laws [THEN conjunct2, THEN conjunct2, THEN conjunct1, rule_format])
qed (use assms in \<open>unfold jwt_laws_def, blast+\<close>)

lemma decode_minted:
  assumes "jwt_laws J" and "jwt_encode J (jv_secret jv) c = Some t"
  shows "decode J jv f now t \<in> {None, f c}"
    and "claims_accepted (validation_of jv) (timestamp now) c \<Longrightarrow> decode J jv f now t = f c"
proof -
  let ?d = "jwt_decode J (jv_secret jv) (validation_of jv) (timestamp now) t"
  have "?d = None \<or> ?d = Some c"
    using jwt_lawsD(5) [OF assms, of "validation_of jv" "timestamp now"] by (cases ?d) simp_all
  then show "decode J jv f now t \<in> {None, f c}" by (auto simp: decode_def)
  show "decode J jv f now t = f c" if "claims_accepted (validation_of jv) (timestamp now) c"
    by (simp add: decode_def jwt_lawsD(4) [OF assms that])
qed

lemma decode_expired:
  assumes "jwt_laws J" and "jwt_encode J (jv_secret jv) c = Some t"
    and "field ''exp'' c = Some (JInt e)" and "e + 60 < timestamp now"
  shows "decode J jv f now t = None"
proof (cases "jwt_decode J (jv_secret jv) (validation_of jv) (timestamp now) t")
  case (Some c')
  then have "timestamp now - 60 \<le> e"
    using jwt_lawsD(1) [OF assms(1) Some] jwt_lawsD(5) [OF assms(1,2) Some] assms(3)
    by (simp add: validation_of_def)
  with assms(4) show ?thesis by simp
qed (simp add: decode_def)

lemma decode_foreign:
  assumes "jwt_laws J" and "jwt_encode J (jv_secret jv) c = Some t"
    and "field ''iss'' c = Some (JString iss)" and "field ''aud'' c = Some (JString aud)"
    and "iss \<noteq> jv_issuer jv \<or> aud \<noteq> jv_audience jv"
  shows "decode J jv f now t = None"
proof (cases "jwt_decode J (jv_secret jv) (validation_of jv) (timestamp now) t")
  case (Some c')
  then have "iss = jv_issuer jv \<and> aud = jv_audience jv"
    using jwt_lawsD(2,3) [OF assms(1) Some] jwt_lawsD(5) [OF assms(1,2) Some] assms(3,4)
    by (simp add: validation_of_def)
  with assms(5) show ?thesis by simp
qed (simp add: decode_def)

text \<open>What a successful \<open>generate_token_pair\<close> has done.\<close>

lemma generate_token_pair_InrE:
  assumes "generate_token_pair E js uid sid w = (Inr p, w1)"
  obtains t jti where "t = timestamp (utc E (tick w) 0)" and "jti = now_v7 E (Suc (tick w)) 0"
    and "jwt_encode (jwt E) (js_secret js) (access_object (jwt E) (access_claims js t uid jti))
           = Some (jp_access_token p)"
    and "jwt_encode (jwt E) (js_secret js) (refresh_object (jwt E) (refresh_claims js t uid sid))
           = Some (jp_refresh_token p)"
    and "w1 = next_tick (next_tick w)"
  using assms
  by (auto simp: generate_token_pair_def bindE_eq_Inr nowE_def now_v7E_def mint_def next_tick_def
           simp del: bindE_liftE)

lemma service_simps [simp]:
  "js_secret (JwtServiceImpl_new secret m d iss aud) = secret"
  "js_verification (JwtServiceImpl_new secret m d iss aud) = JwtVerification_new secret iss aud"
  "js_access_expiry_minutes (JwtServiceImpl_new secret m d iss aud) = m"
  "js_refresh_expiry_days (JwtServiceImpl_new secret m d iss aud) = d"
  "jv_secret (JwtVerification_new secret iss aud) = secret"
  "jv_issuer (JwtVerification_new secret iss aud) = iss"
  "jv_audience (JwtVerification_new secret iss aud) = aud"
  by (simp_all add: JwtServiceImpl_new_def JwtVerification_new_def)

lemma validate_simps:
  "validate_access_token E js token w =
     (ok_or TokenVerificationFailed
        (decode (jwt E) (js_verification js) (access_of (jwt E)) (utc E (tick w) 0) token), next_tick w)"
  "validate_refresh_token E js token w =
     (ok_or TokenVerificationFailed
        (decode (jwt E) (js_verification js) (refresh_of (jwt E)) (utc E (tick w) 0) token), next_tick w)"
  by (simp_all add: validate_access_token_def validate_refresh_token_def bindE_def nowE_def liftE_def)

lemma from_request_parts_bearer:
  assumes "bearer_token h = Some token"
  shows "fst (from_request_parts E h (Some jv) (Some B) w) =
    (case decode (jwt E) jv (request_claims (jwt E)) (utc E (tick w) 0) token of
       None \<Rightarrow> Inl AuthRejection
     | Some user \<Rightarrow>
         (if fst (tb_is_revoked B (au_jti user) (next_tick w)) = Inr True
          then Inl AuthRejection else Inr user))"
proof -
  show ?thesis using assms
    by (auto simp: from_request_parts_def bindE_def nowE_def liftE_def split: option.split prod.split sum.split bool.split)
qed

lemma access_object_fields:
  "field ''exp'' (access_object U a) = Some (JInt (ac_exp a))"
  "field ''iss'' (access_object U a) = Some (JString (ac_iss a))"
  "field ''aud'' (access_object U a) = Some (JString (ac_aud a))"
  "field ''exp'' (refresh_object U r) = Some (JInt (rc_exp r))"
  "field ''iss'' (refresh_object U r) = Some (JString (rc_iss r))"
  "field ''aud'' (refresh_object U r) = Some (JString (rc_aud r))"
  by (simp_all add: access_object_def refresh_object_def)


section \<open>Properties\<close>

text \<open>
  C17.  The two tokens of a pair cannot stand in for each other: at no later time is the
  refresh token accepted as an access token, neither by the service nor by the request
  extractor, and the access token is never accepted for a refresh.
\<close>

theorem tokens_not_interchangeable:
  assumes "jwt_laws (jwt E)"
    and "generate_token_pair E (JwtServiceImpl_new secret m d iss aud) uid sid w = (Inr p, w1)"
  shows "fst (validate_access_token E (JwtServiceImpl_new secret m d iss aud) (jp_refresh_token p) w2)
           = Inl TokenVerificationFailed \<and>
         fst (validate_refresh_token E (JwtServiceImpl_new secret m d iss aud) (jp_access_token p) w2)
           = Inl TokenVerificationFailed \<and>
         (bearer_token h = Some (jp_refresh_token p) \<longrightarrow>
            fst (from_request_parts E h (Some (JwtVerification_new secret iss aud)) (Some B) w2)
              = Inl AuthRejection)"
proof -
  let ?js = "JwtServiceImpl_new secret m d iss aud"
  obtain t jti where a: "jwt_encode (jwt E) (jv_secret (JwtVerification_new secret iss aud))
        (access_object (jwt E) (access_claims ?js t uid jti)) = Some (jp_access_token p)"
    and r: "jwt_encode (jwt E) (jv_secret (JwtVerification_new secret iss aud))
        (refresh_object (jwt E) (refresh_claims ?js t uid sid)) = Some (jp_refresh_token p)"
    by (rule generate_token_pair_InrE [OF assms(2)]) simp
  show ?thesis
    using decode_minted(1) [OF assms(1) a, of "refresh_of (jwt E)"]
      decode_minted(1) [OF assms(1) r, of "access_of (jwt E)"]
      decode_minted(1) [OF assms(1) r, of "request_claims (jwt E)"]
    by (simp add: validate_simps from_request_parts_bearer claims_confusion)
qed


text \<open>
  C10.  Environments are separated: a service configured with the same secret but another
  issuer or another audience accepts neither token of the pair.
\<close>

theorem environment_separation:
  assumes "jwt_laws (jwt E)"
    and "generate_token_pair E (JwtServiceImpl_new secret m d iss aud) uid sid w = (Inr p, w1)"
    and "iss' \<noteq> iss \<or> aud' \<noteq> aud"
  shows "fst (validate_refresh_token E (JwtServiceImpl_new secret m' d' iss' aud') (jp_refresh_token p) w2)
           = Inl TokenVerificationFailed \<and>
         fst (validate_access_token E (JwtServiceImpl_new secret m' d' iss' aud') (jp_access_token p) w2)
           = Inl TokenVerificationFailed \<and>
         (bearer_token h = Some (jp_access_token p) \<longrightarrow>
            fst (from_request_parts E h (Some (JwtVerification_new secret iss' aud')) (Some B) w2)
              = Inl AuthRejection)"
proof -
  let ?js = "JwtServiceImpl_new secret m d iss aud" and ?jv = "JwtVerification_new secret iss' aud'"
  obtain t jti where a: "jwt_encode (jwt E) (jv_secret ?jv)
        (access_object (jwt E) (access_claims ?js t uid jti)) = Some (jp_access_token p)"
    and r: "jwt_encode (jwt E) (jv_secret ?jv)
        (refresh_object (jwt E) (refresh_claims ?js t uid sid)) = Some (jp_refresh_token p)"
    by (rule generate_token_pair_InrE [OF assms(2)]) simp
  have "ac_iss (access_claims ?js t uid jti) \<noteq> jv_issuer ?jv \<or> ac_aud (access_claims ?js t uid jti) \<noteq> jv_audience ?jv"
    and "rc_iss (refresh_claims ?js t uid sid) \<noteq> jv_issuer ?jv \<or> rc_aud (refresh_claims ?js t uid sid) \<noteq> jv_audience ?jv"
    using assms(3) by (auto simp: access_claims_def refresh_claims_def)
  note foreign = decode_foreign [OF assms(1) a access_object_fields(2,3) this(1)]
    decode_foreign [OF assms(1) r access_object_fields(5,6) this(2)]
  show ?thesis by (simp add: validate_simps from_request_parts_bearer foreign)
qed

section \<open>A concrete token library\<close>

text \<open>An instance of the library that meets the hypotheses, with the one token pair of the
  examples, and the environment they run in.\<close>

definition sample_uuid_lib :: uuid_lib where
  "sample_uuid_lib = \<lparr>show_uuid = (\<lambda>u. show_nat (unat u)),
     parse_uuid = (\<lambda>s. map_option of_nat (digits_val 10 0 s))\<rparr>"

definition sample_access :: claims where
  "sample_access = access_object sample_uuid_lib
     \<lparr>ac_sub = 7, ac_jti = 1, ac_iss = ''i'', ac_aud = ''a'', ac_exp = 1900, ac_iat = 1000\<rparr>"

definition sample_refresh :: claims where
  "sample_refresh = refresh_object sample_uuid_lib
     \<lparr>rc_sub = 7, rc_session_id = 9, rc_iss = ''i'', rc_aud = ''a'', rc_exp = 87400, rc_iat = 1000\<rparr>"

definition sample_jwt :: jwt_lib where
  "sample_jwt = uuid_lib.extend sample_uuid_lib (jwt_lib.fields
     (\<lambda>k c. if k \<noteq> ''k'' then None else if c = sample_access then Some ''A''
            else if c = sample_refresh then Some ''R'' else None)
     (\<lambda>k v now t. if k = ''k'' \<and> t = ''A'' \<and> claims_accepted v now sample_access then Some sample_access
            else if k = ''k'' \<and> t = ''R'' \<and> claims_accepted v now sample_refresh then Some sample_refresh
            else None))"

definition sample_env :: auth_env where
  "sample_env = \<lparr>utc = (\<lambda>n i. secs 1000), now_v7 = (\<lambda>n i. of_nat n), pg_link_at = (\<lambda>n. Pg_Up),
     pg_now = (\<lambda>n. secs 1000), pg_show = (\<lambda>e. ''db''), jwt = sample_jwt\<rparr>"

abbreviation sample_service :: jwt_service where
  "sample_service \<equiv> JwtServiceImpl_new ''k'' 15 1 ''i'' ''a''"

lemma sample_uuid_laws: "uuid_laws sample_uuid_lib"
  by (simp add: uuid_laws_def sample_uuid_lib_def digits_val_show_nat)

lemma sample_jwt_simps [simp]:
  "show_uuid sample_jwt = show_uuid sample_uuid_lib"
  "parse_uuid sample_jwt = parse_uuid sample_uuid_lib"
  "jwt_encode sample_jwt k c =
     (if k \<noteq> ''k'' then None else if c = sample_access then Some ''A''
      else if c = sample_refresh then Some ''R'' else None)"
  "jwt_decode sample_jwt k v now t =
     (if k = ''k'' \<and> t = ''A'' \<and> claims_accepted v now sample_access then Some sample_access
      else if k = ''k'' \<and> t = ''R'' \<and> claims_accepted v now sample_refresh then Some sample_refresh
      else None)"
  by (simp_all add: sample_jwt_def sample_uuid_lib_def jwt_lib.defs uuid_lib.defs)

lemma claims_acceptedD:
  assumes "claims_accepted v now c"
  shows "field ''exp'' c = Some (JInt e) \<Longrightarrow> now - va_leeway v \<le> e"
    and "field ''iss'' c = Some (JString s) \<Longrightarrow> s \<in> set (va_issuer v)"
    and "field ''aud'' c = Some (JString s) \<Longrightarrow> s \<in> set (va_audience v)"
  using assms by (auto simp: claims_accepted_def)

lemma sample_decode:
  "jwt_decode sample_jwt k v now t = Some c \<Longrightarrow> claims_accepted v now c"
  "jwt_encode sample_jwt k c = Some t \<Longrightarrow> claims_accepted v now c \<Longrightarrow>
     jwt_decode sample_jwt k v now t = Some c"
  "jwt_encode sample_jwt k c = Some t \<Longrightarrow> jwt_decode sample_jwt k v now t = Some c' \<Longrightarrow> c' = c"
  by (auto split: if_splits)

lemma sample_jwt_laws: "jwt_laws sample_jwt"
proof -
  have "uuid_laws sample_jwt"
    using sample_uuid_laws by (simp add: uuid_laws_def)
  then show ?thesis
    unfolding jwt_laws_def
    by (intro conjI allI impI)
       (erule (1) claims_acceptedD [OF sample_decode(1)] sample_decode(2,3) | assumption)+
qed

lemma sample_objects:
  "access_object sample_jwt (access_claims sample_service 1000 7 1) = sample_access"
  "refresh_object sample_jwt (refresh_claims sample_service 1000 7 9) = sample_refresh"
  "sample_refresh \<noteq> sample_access"
  by (simp_all add: sample_access_def sample_refresh_def access_claims_def refresh_claims_def i64_def
        access_object_def refresh_object_def)

lemma sample_pair:
  "tick w = 0 \<Longrightarrow> generate_token_pair sample_env sample_service 7 9 w =
     (Inr \<lparr>jp_access_token = ''A'', jp_refresh_token = ''R''\<rparr>, next_tick (next_tick w))"
  by (simp add: generate_token_pair_def bindE_def nowE_def now_v7E_def next_tick_def liftE_def mint_def
        sample_env_def timestamp_def secs_def returnE_def sample_objects)


abbreviation sample_world :: world where
  "sample_world \<equiv> \<lparr>tick = 0, db = empty_db\<rparr>"

definition bearer :: "string \<Rightarrow> headers" where
  "bearer token name = (if name = ''Authorization'' then Some (''Bearer '' @ token) else None)"

lemma bearer_token_bearer [simp]: "bearer_token (bearer token) = Some token"
  by (simp add: bearer_token_def bearer_def)

text \<open>A blacklist that knows of the given token ids.\<close>

definition fixed_blacklist :: "uuid set \<Rightarrow> 'w token_blacklist" where
  "fixed_blacklist ids =
     \<lparr>tb_revoke = (\<lambda>jti ttl w. (Inr (), w)), tb_is_revoked = (\<lambda>jti w. (Inr (jti \<in> ids), w))\<rparr>"

lemma sample_env_jwt [simp]: "jwt sample_env = sample_jwt"
  by (simp add: sample_env_def)

theorem tokens_not_interchangeable_witness:
  "\<exists>p w1. generate_token_pair sample_env sample_service 7 9 sample_world = (Inr p, w1) \<and>
     fst (validate_access_token sample_env sample_service (jp_refresh_token p) sample_world)
       = Inl TokenVerificationFailed \<and>
     fst (validate_refresh_token sample_env sample_service (jp_access_token p) sample_world)
       = Inl TokenVerificationFailed \<and>
     fst (from_request_parts sample_env (bearer (jp_refresh_token p)) (Some (JwtVerification_new ''k'' ''i'' ''a''))
            (Some (fixed_blacklist {})) sample_world) = Inl AuthRejection"
  using tokens_not_interchangeable [OF sample_jwt_laws [folded sample_env_jwt] sample_pair [of sample_world],
      of "sample_world" "bearer ''R''" "fixed_blacklist {}"]
    sample_pair [of sample_world]
  by simp


theorem environment_separation_witness:
  "\<exists>p w1. generate_token_pair sample_env sample_service 7 9 sample_world = (Inr p, w1) \<and>
     fst (from_request_parts sample_env (bearer (jp_access_token p))
            (Some (JwtVerification_new ''k'' ''staging'' ''a'')) (Some (fixed_blacklist {})) sample_world)
       = Inl AuthRejection"
  using environment_separation [OF sample_jwt_laws [folded sample_env_jwt] sample_pair [of sample_world],
      of "''staging''" "''a''" 15 1 sample_world "bearer ''A''" "fixed_blacklist {}"]
    sample_pair [of sample_world]
  by simp

end
