(* ===== verification/Admin.thy ===== *)
theory Admin
  imports User_Repo Jwt
begin

text \<open>
  The admin crate, \<open>crates/admin\<close>: roles, the repository over the table of roles and the
  user directory, the use cases and the three handlers with their guard.  The two
  queries of \<open>tokio::join!\<close> are run one after the other; both only read.
\<close>

section \<open>Roles, users and errors\<close>

datatype role = Role_User | Role_Admin

fun role_as_str :: "role \<Rightarrow> string" where
  "role_as_str Role_User = ''user''"
| "role_as_str Role_Admin = ''admin''"

definition role_is_admin :: "role \<Rightarrow> bool" where
  "role_is_admin r \<longleftrightarrow> r = Role_Admin"

definition role_try_from :: "string \<Rightarrow> string + role" where
  "role_try_from val =
     (if val = ''user'' then Inr Role_User
      else if val = ''admin'' then Inr Role_Admin
      else Inl (''Invalid role: '' @ val))"

datatype admin_error =
    Admin_NotFound uuid
  | Admin_Unauthorized
  | Admin_CannotChangeOwnRole
  | Admin_InvalidValue string
  | Admin_InternalError string

record admin_user =
  ad_id :: uuid
  ad_username :: "string option"
  ad_email :: string
  ad_display_name :: string
  ad_role :: role
  ad_auth_provider :: string
  ad_created_at :: time
  ad_updated_at :: time

definition AdminUser_new ::
  "uuid \<Rightarrow> string option \<Rightarrow> string \<Rightarrow> string \<Rightarrow> role \<Rightarrow> string \<Rightarrow> time \<Rightarrow> time \<Rightarrow> admin_user" where
  "AdminUser_new uid username email display_name role auth_provider created_at updated_at =
     \<lparr>ad_id = uid, ad_username = username, ad_email = email, ad_display_name = display_name, ad_role = role,
      ad_auth_provider = auth_provider, ad_created_at = created_at, ad_updated_at = updated_at\<rparr>"


section \<open>The ports\<close>

record 'w user_directory =
  ud_get_user_summary :: "uuid \<Rightarrow> ('w, domain_error, user_summary option) eff"
  ud_list_user_summaries :: "u32 \<Rightarrow> u64 \<Rightarrow> ('w, domain_error, user_summary list) eff"
  ud_count_users :: "('w, domain_error, u64) eff"

definition postgres_user_directory :: "('e) env_scheme \<Rightarrow> 'z world_scheme user_directory" where
  "postgres_user_directory E =
     \<lparr>ud_get_user_summary = get_user_summary E, ud_list_user_summaries = list_user_summaries E,
      ud_count_users = count_users E\<rparr>"

record list_users_result =
  lu_users :: "admin_user list"
  lu_total :: u64

record 'w admin_repository =
  ar_list_users :: "u32 \<Rightarrow> u32 \<Rightarrow> ('w, admin_error, list_users_result) eff"
  ar_get_user :: "uuid \<Rightarrow> ('w, admin_error, admin_user) eff"
  ar_is_admin :: "uuid \<Rightarrow> ('w, admin_error, bool) eff"
  ar_update_role :: "uuid \<Rightarrow> role \<Rightarrow> ('w, admin_error, admin_user) eff"


section \<open>The PostgreSQL repository\<close>

definition admin_queryE :: "('e) env_scheme \<Rightarrow> 'a statement \<Rightarrow> ('z world_scheme, admin_error, 'a) eff" where
  "admin_queryE E f = map_errE (\<lambda>e. Admin_InternalError (pg_show E e)) (stmtE E f)"

definition from_directory :: "('w, domain_error, 'a) eff \<Rightarrow> ('w, admin_error, 'a) eff" where
  "from_directory = map_errE (\<lambda>e. Admin_InternalError (domain_error_display e))"

definition role_for :: "('e) env_scheme \<Rightarrow> uuid \<Rightarrow> ('z world_scheme, admin_error, role) eff" where
  "role_for E user_id =
     bindE (admin_queryE E (select_role user_id)) (\<lambda>role_str.
     case role_str of
       Some s \<Rightarrow> liftE (map_err Admin_InternalError (role_try_from s))
     | None \<Rightarrow> returnE Role_User)"

text \<open>Collecting pairs into a \<open>HashMap\<close>: the last pair of a key stays.\<close>

definition assigned_roles_for ::
  "('e) env_scheme \<Rightarrow> uuid list \<Rightarrow> ('z world_scheme, admin_error, uuid \<rightharpoonup> role) eff" where
  "assigned_roles_for E user_ids =
     (if user_ids = [] then returnE Map.empty
      else
        bindE (admin_queryE E (select_roles_any user_ids)) (\<lambda>rows.
        bindE (liftE (collectR (\<lambda>(user_id, role_str).
                 bindR (map_err Admin_InternalError (role_try_from role_str)) (\<lambda>role. Inr (user_id, role))) rows)) (\<lambda>pairs.
        returnE (map_of (rev pairs)))))"

definition admin_user_of :: "user_summary \<Rightarrow> role \<Rightarrow> admin_user" where
  "admin_user_of s role =
     AdminUser_new (us_id s) (us_username s) (us_email s) (us_display_name s) role (us_auth_provider s)
       (us_created_at s) (us_updated_at s)"

definition page_offset :: "u32 \<Rightarrow> u32 \<Rightarrow> u64" where
  "page_offset page per_page = ucast (saturating_sub page 1) * ucast per_page"

definition repo_list_users ::
  "('e) env_scheme \<Rightarrow> 'z world_scheme user_directory \<Rightarrow> u32 \<Rightarrow> u32 \<Rightarrow> ('z world_scheme, admin_error, list_users_result) eff" where
  "repo_list_users E directory page per_page w =
     (let offset = page_offset page per_page;
          (summaries, w1) = ud_list_user_summaries directory per_page offset w;
          (total, w2) = ud_count_users directory w1
      in bindE (from_directory (\<lambda>w. (summaries, w))) (\<lambda>summaries.
         bindE (from_directory (\<lambda>w. (total, w))) (\<lambda>total.
         bindE (assigned_roles_for E (map us_id summaries)) (\<lambda>assigned_roles.
         returnE \<lparr>lu_users = map (\<lambda>s. admin_user_of s
                     (case assigned_roles (us_id s) of Some role \<Rightarrow> role | None \<Rightarrow> Role_User)) summaries,
                  lu_total = total\<rparr>))) w2)"

definition repo_get_user ::
  "('e) env_scheme \<Rightarrow> 'z world_scheme user_directory \<Rightarrow> uuid \<Rightarrow> ('z world_scheme, admin_error, admin_user) eff" where
  "repo_get_user E directory user_id =
     bindE (from_directory (ud_get_user_summary directory user_id)) (\<lambda>found.
     bindE (liftE (ok_or (Admin_NotFound user_id) found)) (\<lambda>summary.
     bindE (role_for E user_id) (\<lambda>role.
     returnE (admin_user_of summary role))))"

definition repo_is_admin ::
  "('e) env_scheme \<Rightarrow> 'z world_scheme user_directory \<Rightarrow> uuid \<Rightarrow> ('z world_scheme, admin_error, bool) eff" where
  "repo_is_admin E directory user_id =
     bindE (from_directory (ud_get_user_summary directory user_id)) (\<lambda>found.
     if found = None then throwE (Admin_NotFound user_id)
     else bindE (role_for E user_id) (\<lambda>role. returnE (role_is_admin role)))"

definition repo_update_role ::
  "('e) env_scheme \<Rightarrow> 'z world_scheme user_directory \<Rightarrow> uuid \<Rightarrow> role \<Rightarrow> ('z world_scheme, admin_error, admin_user) eff" where
  "repo_update_role E directory user_id role =
     bindE (admin_queryE E (upsert_role user_id (role_as_str role))) (\<lambda>_. repo_get_user E directory user_id)"

definition postgres_admin_repo ::
  "('e) env_scheme \<Rightarrow> 'z world_scheme user_directory \<Rightarrow> 'z world_scheme admin_repository" where
  "postgres_admin_repo E directory =
     \<lparr>ar_list_users = repo_list_users E directory, ar_get_user = repo_get_user E directory,
      ar_is_admin = repo_is_admin E directory, ar_update_role = repo_update_role E directory\<rparr>"


section \<open>The use cases\<close>

definition DEFAULT_PAGE_SIZE :: u32 where "DEFAULT_PAGE_SIZE = 100"
definition MAX_PAGE_SIZE :: u32 where "MAX_PAGE_SIZE = 500"

definition list_users :: "'w admin_repository \<Rightarrow> u32 \<Rightarrow> u32 \<Rightarrow> ('w, admin_error, list_users_result) eff" where
  "list_users repo page per_page = ar_list_users repo page per_page"

definition get_user :: "'w admin_repository \<Rightarrow> uuid \<Rightarrow> ('w, admin_error, admin_user) eff" where
  "get_user repo user_id = ar_get_user repo user_id"

definition ROLE_MESSAGE :: string where
  "ROLE_MESSAGE =
     (let q = [CHR 0x27] in ''role must be '' @ q @ ''user'' @ q @ '' or '' @ q @ ''admin'' @ q)"

definition update_user_role ::
  "'w admin_repository \<Rightarrow> uuid \<Rightarrow> uuid \<Rightarrow> string \<Rightarrow> ('w, admin_error, admin_user) eff" where
  "update_user_role repo actor_id user_id new_role =
     (if actor_id = user_id then throwE Admin_CannotChangeOwnRole
      else
        bindE (liftE (map_err (\<lambda>_. Admin_InvalidValue ROLE_MESSAGE) (role_try_from new_role))) (\<lambda>role.
        bindE (ar_get_user repo user_id) (\<lambda>_.
        ar_update_role repo user_id role)))"


section \<open>The handlers\<close>

record user_response =
  ur_id :: string
  ur_username :: "string option"
  ur_email :: string
  ur_display_name :: string
  ur_role :: string
  ur_auth_provider :: string
  ur_created_at :: string
  ur_updated_at :: string

record users_response =
  ul_items :: "user_response list"
  ul_page :: u32
  ul_per_page :: u32
  ul_total :: u64

record update_role_request =
  uq_role :: string

definition user_to_response :: "api_text \<Rightarrow> admin_user \<Rightarrow> user_response" where
  "user_to_response T user =
     \<lparr>ur_id = at_uuid T (ad_id user), ur_username = ad_username user, ur_email = ad_email user,
      ur_display_name = ad_display_name user, ur_role = role_as_str (ad_role user),
      ur_auth_provider = ad_auth_provider user, ur_created_at = at_rfc3339 T (ad_created_at user),
      ur_updated_at = at_rfc3339 T (ad_updated_at user)\<rparr>"

record list_users_query =
  lq_page :: "u32 option"
  lq_per_page :: "u32 option"

definition normalize_per_page :: "u32 option \<Rightarrow> u32" where
  "normalize_per_page raw =
     (let n = (case raw of None \<Rightarrow> DEFAULT_PAGE_SIZE | Some n \<Rightarrow> n)
      in if n < 1 then 1 else if MAX_PAGE_SIZE < n then MAX_PAGE_SIZE else n)"

definition normalize_page :: "u32 option \<Rightarrow> unit + u32" where
  "normalize_page raw =
     (let p = (case raw of None \<Rightarrow> 1 | Some p \<Rightarrow> p) in if p = 0 then Inl () else Inr p)"

definition AdminGuard :: "'b response" where
  "AdminGuard = Error_Response 403 ''Forbidden: admin access required''"

text \<open>The check at the head of each handler.\<close>

definition as_admin ::
  "'w admin_repository \<Rightarrow> authenticated_user \<Rightarrow> ('w \<Rightarrow> 'b response \<times> 'w) \<Rightarrow> 'w \<Rightarrow> 'b response \<times> 'w" where
  "as_admin repo auth_user k w =
     (case ar_is_admin repo (au_user_id auth_user) w of
        (Inr True, w1) \<Rightarrow> k w1
      | (Inr False, w1) \<Rightarrow> (AdminGuard, w1)
      | (Inl _, w1) \<Rightarrow> (Error_Response 500 ''Internal server error'', w1))"

definition list_users_handler ::
  "api_text \<Rightarrow> 'w admin_repository \<Rightarrow> authenticated_user \<Rightarrow> list_users_query \<Rightarrow> 'w \<Rightarrow> users_response response \<times> 'w" where
  "list_users_handler T repo auth_user query =
     as_admin repo auth_user (\<lambda>w.
       case normalize_page (lq_page query) of
         Inl _ \<Rightarrow> (Error_Response 400 ''page must be >= 1'', w)
       | Inr page \<Rightarrow>
           (let per_page = normalize_per_page (lq_per_page query)
            in case list_users repo page per_page w of
                 (Inr result, w1) \<Rightarrow>
                   (Json_Response 200 \<lparr>ul_items = map (user_to_response T) (lu_users result), ul_page = page,
                      ul_per_page = per_page, ul_total = lu_total result\<rparr>, w1)
               | (Inl _, w1) \<Rightarrow> (Error_Response 500 ''Internal server error'', w1)))"

definition get_user_handler ::
  "api_text \<Rightarrow> 'w admin_repository \<Rightarrow> authenticated_user \<Rightarrow> uuid \<Rightarrow> 'w \<Rightarrow> user_response response \<times> 'w" where
  "get_user_handler T repo auth_user user_id =
     as_admin repo auth_user (\<lambda>w.
       case get_user repo user_id w of
         (Inr user, w1) \<Rightarrow> (Json_Response 200 (user_to_response T user), w1)
       | (Inl (Admin_NotFound _), w1) \<Rightarrow> (Error_Response 404 ''User not found'', w1)
       | (Inl _, w1) \<Rightarrow> (Error_Response 500 ''Internal server error'', w1))"

fun role_error_response :: "admin_error \<Rightarrow> 'b response" where
  "role_error_response (Admin_NotFound _) = Error_Response 404 ''User not found''"
| "role_error_response Admin_CannotChangeOwnRole = Error_Response 403 ''Cannot change your own role''"
| "role_error_response (Admin_InvalidValue msg) = Error_Response 400 msg"
| "role_error_response _ = Error_Response 500 ''Internal server error''"

definition update_user_role_handler ::
  "api_text \<Rightarrow> 'w admin_repository \<Rightarrow> authenticated_user \<Rightarrow> uuid \<Rightarrow> update_role_request \<Rightarrow> 'w
   \<Rightarrow> user_response response \<times> 'w" where
  "update_user_role_handler T repo auth_user user_id req =
     as_admin repo auth_user (\<lambda>w.
       case update_user_role repo (au_user_id auth_user) user_id (uq_role req) w of
         (Inr user, w1) \<Rightarrow> (Json_Response 200 (user_to_response T user), w1)
       | (Inl e, w1) \<Rightarrow> (role_error_response e, w1))"


section \<open>What the database says of roles\<close>

definition stored_role :: "database \<Rightarrow> uuid \<Rightarrow> role option" where
  "stored_role d uid =
     (if uid \<notin> usr_id ` set (users d) then None
      else (case find (\<lambda>r. rol_user_id r = uid) (user_roles d) of
              None \<Rightarrow> Some Role_User
            | Some r \<Rightarrow> (case role_try_from (rol_role r) of Inr role \<Rightarrow> Some role | Inl _ \<Rightarrow> None)))"

text \<open>Nothing differs but the role of one user.\<close>

definition only_role_of :: "uuid \<Rightarrow> database \<Rightarrow> database \<Rightarrow> bool" where
  "only_role_of uid d d' \<longleftrightarrow>
     d' = d\<lparr>user_roles := user_roles d'\<rparr> \<and>
     filter (\<lambda>r. rol_user_id r \<noteq> uid) (user_roles d') = filter (\<lambda>r. rol_user_id r \<noteq> uid) (user_roles d)"

lemma role_round_trip [simp]: "role_try_from (role_as_str role) = Inr role"
  by (cases role) (simp_all add: role_try_from_def)

lemma filter_upsert_row: "filter (\<lambda>x. key x \<noteq> key r) (upsert_row key r rows) = filter (\<lambda>x. key x \<noteq> key r) rows"
proof -
  have "filter (\<lambda>x. key x \<noteq> key r) (map (\<lambda>x. if key x = key r then r else x) rows) = filter (\<lambda>x. key x \<noteq> key r) rows"
    by (induction rows) simp_all
  then show ?thesis by (simp add: upsert_row_def)
qed

lemma as_varchar_role: "as_varchar 20 (role_as_str role) = Inr (role_as_str role)"
  by (cases role) (simp_all only: role_as_str.simps, code_simp+)

lemma upsert_role_effect:
  "(\<exists>e. upsert_role uid (role_as_str role) now d = (Inl e, d)) \<or>
   (\<exists>d'. upsert_role uid (role_as_str role) now d = (Inr (), d') \<and>
      stored_role d' = (stored_role d)(uid \<mapsto> role) \<and> only_role_of uid d d')"
proof (cases "uid \<in> usr_id ` set (users d)")
  case False
  then show ?thesis by (simp add: upsert_role_def as_varchar_role)
next
  case True
  let ?r = "\<lparr>rol_user_id = uid, rol_role = role_as_str role, rol_updated_at = now\<rparr>"
  let ?d = "d\<lparr>user_roles := upsert_row rol_user_id ?r (user_roles d)\<rparr>"
  have "role_as_str role \<in> {''user'', ''admin''}" by (cases role) simp_all
  then have "upsert_role uid (role_as_str role) now d = (Inr (), ?d)"
    using True by (simp add: upsert_role_def as_varchar_role)
  moreover have "stored_role ?d = (stored_role d)(uid \<mapsto> role)"
    using True by (auto simp: stored_role_def fun_eq_iff find_upsert_row)
  moreover have "only_role_of uid d ?d"
    using filter_upsert_row [of rol_user_id ?r] by (simp add: only_role_of_def)
  ultimately show ?thesis by blast
qed


section \<open>The contract of the user directory\<close>

text \<open>
  The directory lists the users of a database in a fixed order, finds them by id, and
  changes nothing.  Whatever directory obeys this, the admin repository over it reads and
  writes roles as its own contract promises.
\<close>

locale admin_store =
  fixes R :: "'z world_scheme admin_repository"
    and role_of :: "database \<Rightarrow> uuid \<Rightarrow> role option"
  assumes is_admin_reads: "ar_is_admin R uid w = (q, w') \<Longrightarrow>
      db w' = db w \<and> (\<forall>b. q = Inr b \<longrightarrow> (\<exists>role. role_of (db w) uid = Some role \<and> b = role_is_admin role))"
    and get_user_reads: "ar_get_user R uid w = (g, w') \<Longrightarrow>
      db w' = db w \<and> (\<forall>u. g = Inr u \<longrightarrow> ad_id u = uid \<and> role_of (db w) uid = Some (ad_role u))"
    and update_role_writes: "ar_update_role R uid role w = (g, w') \<Longrightarrow>
      (\<exists>e. g = Inl e) \<and> db w' = db w \<or>
      role_of (db w') = (role_of (db w))(uid \<mapsto> role) \<and> only_role_of uid (db w) (db w') \<and>
      (\<forall>u. g = Inr u \<longrightarrow> ad_id u = uid \<and> ad_role u = role)"
begin

lemma update_user_role_outcome:
  assumes "update_user_role R actor target new_role w = (g, w')"
  shows "(\<exists>e. g = Inl e) \<and> db w' = db w \<or>
         (\<exists>role. actor \<noteq> target \<and> role_try_from new_role = Inr role \<and> role_of (db w) target \<noteq> None \<and>
            role_of (db w') = (role_of (db w))(target \<mapsto> role) \<and> only_role_of target (db w) (db w') \<and>
            (\<forall>u. g = Inr u \<longrightarrow> ad_id u = target \<and> ad_role u = role))"
proof (cases "actor = target \<or> isl (role_try_from new_role)")
  case True
  with assms show ?thesis by (cases "role_try_from new_role") (auto simp: update_user_role_def split: if_splits)
next
  case False
  then obtain role where role: "role_try_from new_role = Inr role" by (cases "role_try_from new_role") simp_all
  obtain q w1 where q: "ar_get_user R target w = (q, w1)" by fastforce
  note f = get_user_reads [OF q]
  show ?thesis
  proof (cases q)
    case (Inl e)
    with assms False role q f show ?thesis by (auto simp: update_user_role_def bindE_def liftE_def)
  next
    case (Inr u)
    with assms False role q have "ar_update_role R target role w1 = (g, w')"
      by (simp add: update_user_role_def bindE_def liftE_def)
    from update_role_writes [OF this] f Inr False role show ?thesis by (elim disjE conjE) auto
  qed
qed

text \<open>A request for a new role: refused, or an admin's change of someone else's role.\<close>

lemma handler_outcome:
  assumes "update_user_role_handler T R user target req w = (resp, w')"
  shows "status resp \<noteq> 200 \<and> db w' = db w \<or>
         (\<exists>role. role_of (db w) (au_user_id user) = Some Role_Admin \<and> au_user_id user \<noteq> target \<and>
            role_try_from (uq_role req) = Inr role \<and> role_of (db w) target \<noteq> None \<and>
            role_of (db w') = (role_of (db w))(target \<mapsto> role) \<and> only_role_of target (db w) (db w'))"
proof -
  obtain q w1 where q: "ar_is_admin R (au_user_id user) w = (q, w1)" by fastforce
  note f = is_admin_reads [OF q]
  show ?thesis
  proof (cases "q = Inr True")
    case False
    with assms q f show ?thesis
      by (cases q) (auto simp: update_user_role_handler_def as_admin_def AdminGuard_def split: bool.splits)
  next
    case True
    obtain g w2 where g: "update_user_role R (au_user_id user) target (uq_role req) w1 = (g, w2)" by fastforce
    have "status (role_error_response e) \<noteq> 200" for e by (cases e) simp_all
    with assms q True g have "w' = w2 \<and> (status resp = 200 \<longrightarrow> (\<exists>u. g = Inr u))"
      by (cases g) (auto simp: update_user_role_handler_def as_admin_def)
    moreover have "role_of (db w) (au_user_id user) = Some Role_Admin" using f True by (auto simp: role_is_admin_def)
    ultimately show ?thesis using update_user_role_outcome [OF g] f by (elim disjE exE conjE) auto
  qed
qed

end

text \<open>The role of an existing user, as a query or a failure.\<close>

lemma read_only_admin_queryE [keeps, intro]: "(\<And>now d. snd (f now d) = d) \<Longrightarrow> read_only (admin_queryE E f)"
  unfolding admin_queryE_def by (intro read_only_map_errE read_only_stmtE)

lemma admin_queryE_Inr:
  "admin_queryE E f w = (Inr x, w') \<Longrightarrow> f (pg_now E (tick w)) (db w) = (Inr x, db w')"
  by (cases "pg_link_at E (tick w)") (auto simp: admin_queryE_def map_errE_def map_err_def stmtE_def split: prod.splits sum.splits)

lemma read_only_role_for [keeps, intro]: "read_only (role_for E uid)"
  unfolding role_for_def
  by (rule read_only_bindE [OF read_only_admin_queryE]) (auto simp: select_role_def split: option.split)

lemma role_for_Inr:
  assumes "role_for E uid w = (Inr role, w')" and "uid \<in> usr_id ` set (users (db w))"
  shows "stored_role (db w) uid = Some role"
proof -
  obtain found w1 where "admin_queryE E (select_role uid) w = (Inr found, w1)"
      and k: "(case found of Some s \<Rightarrow> liftE (map_err Admin_InternalError (role_try_from s)) | None \<Rightarrow> returnE Role_User) w1 = (Inr role, w')"
    using assms(1) unfolding role_for_def by (rule bindE_InrE)
  then have "found = map_option rol_role (find (\<lambda>r. rol_user_id r = uid) (user_roles (db w)))"
    using admin_queryE_Inr by (fastforce simp: select_role_def)
  with k assms(2) show ?thesis by (auto simp: stored_role_def map_err_eq_Inr split: option.splits)
qed

text \<open>With the database reachable and its constraints kept, every role can be read.\<close>

definition row_role :: "role_row \<Rightarrow> role" where
  "row_role r = (if rol_role r = ''admin'' then Role_Admin else Role_User)"

lemma readable_role: "db_wf d \<Longrightarrow> r \<in> set (user_roles d) \<Longrightarrow> role_try_from (rol_role r) = Inr (row_role r)"
  by (auto simp: db_wf_def role_try_from_def row_role_def)

lemma stored_role_wf:
  assumes "db_wf d"
  shows "stored_role d uid =
    (if uid \<in> usr_id ` set (users d)
     then Some (case find (\<lambda>r. rol_user_id r = uid) (user_roles d) of None \<Rightarrow> Role_User | Some r \<Rightarrow> row_role r) else None)"
  using readable_role [OF assms] by (auto simp: stored_role_def split: option.split dest: find_SomeD)

lemma admin_queryE_up:
  "pg_link_at E (tick w) = Pg_Up \<Longrightarrow> f (pg_now E (tick w)) (db w) = (Inr x, db w) \<Longrightarrow>
     \<exists>w'. admin_queryE E f w = (Inr x, w') \<and> db w' = db w"
  by (simp add: admin_queryE_def map_errE_def map_err_def stmtE_def)

lemma role_for_up:
  assumes "pg_link_at E (tick w) = Pg_Up" and "stored_role (db w) uid = Some role"
  shows "\<exists>w'. role_for E uid w = (Inr role, w') \<and> db w' = db w"
proof -
  obtain w' where "admin_queryE E (select_role uid) w = (Inr (map_option rol_role (find (\<lambda>r. rol_user_id r = uid) (user_roles (db w)))), w')"
      "db w' = db w"
    using admin_queryE_up [OF assms(1), of "select_role uid"] by (auto simp: select_role_def)
  with assms(2) show ?thesis
    by (auto simp: role_for_def stored_role_def bindE_def liftE_def split: option.splits if_splits sum.splits)
qed

lemma map_of_rev_distinct: "distinct (map fst xs) \<Longrightarrow> map_of (rev xs) = map_of xs"
  by (induction xs) (force simp: fun_eq_iff map_add_def split: option.split dest: map_of_SomeD)+

lemma map_of_role_rows:
  assumes "unique_by rol_user_id rows" and "uid \<in> set ids"
  shows "map_of (rev (map (\<lambda>r. (rol_user_id r, row_role r)) (filter (\<lambda>r. rol_user_id r \<in> set ids) rows))) uid =
           map_option row_role (find (\<lambda>r. rol_user_id r = uid) rows)"
proof -
  let ?pairs = "map (\<lambda>r. (rol_user_id r, row_role r)) (filter (\<lambda>r. rol_user_id r \<in> set ids) rows)"
  have "distinct (map fst ?pairs)"
    using assms(1) by (simp add: unique_by_def comp_def distinct_map_filter)
  then have "map_of (rev ?pairs) = map_of ?pairs"
    by (rule map_of_rev_distinct)
  moreover have "map_of ?pairs uid = map_option row_role (find (\<lambda>r. rol_user_id r = uid) rows)"
    using assms(2) by (induction rows) auto
  ultimately show ?thesis by simp
qed

lemma assigned_roles_up:
  assumes "pg_link_at E (tick w) = Pg_Up" and "db_wf (db w)" and "set ids \<subseteq> usr_id ` set (users (db w))"
  shows "\<exists>m w'. assigned_roles_for E ids w = (Inr m, w') \<and> db w' = db w \<and>
           (\<forall>uid \<in> set ids. stored_role (db w) uid = Some (case m uid of Some role \<Rightarrow> role | None \<Rightarrow> Role_User))"
proof (cases "ids = []")
  case True
  then show ?thesis by (simp add: assigned_roles_for_def)
next
  case False
  let ?rows = "filter (\<lambda>r. rol_user_id r \<in> set ids) (user_roles (db w))"
  obtain w' where q: "admin_queryE E (select_roles_any ids) w = (Inr (map (\<lambda>r. (rol_user_id r, rol_role r)) ?rows), w')" "db w' = db w"
    using admin_queryE_up [OF assms(1), of "select_roles_any ids"] by (auto simp: select_roles_any_def)
  let ?f = "\<lambda>(user_id, role_str). bindR (map_err Admin_InternalError (role_try_from role_str)) (\<lambda>role. Inr (user_id, role))"
  let ?pairs = "map (\<lambda>r. (rol_user_id r, row_role r)) ?rows"
  have "collectR ?f (map (\<lambda>r. (rol_user_id r, rol_role r)) rows) = Inr (map (\<lambda>r. (rol_user_id r, row_role r)) rows)"
    if "set rows \<subseteq> set (user_roles (db w))" for rows
    using that by (induction rows) (simp_all add: readable_role [OF assms(2)])
  from this [of ?rows] have "assigned_roles_for E ids w = (Inr (map_of (rev ?pairs)), w')"
    using q False by (simp add: assigned_roles_for_def bindE_def liftE_def)
  moreover have "unique_by rol_user_id (user_roles (db w))" using assms(2) by (simp add: db_wf_def)
  ultimately show ?thesis
    using q(2) assms(3) map_of_role_rows
    by (auto simp: stored_role_wf [OF assms(2)] split: option.split) 
qed

locale directory =
  fixes E :: "('e) env_scheme"
    and D :: "'z world_scheme user_directory"
    and entries :: "database \<Rightarrow> user_summary list"
  assumes entries_users: "us_id ` set (entries d) = usr_id ` set (users d)"
    and get_reads: "ud_get_user_summary D uid w = (q, w') \<Longrightarrow>
      db w' = db w \<and>
      (\<forall>s. q = Inr (Some s) \<longrightarrow> s \<in> set (entries (db w)) \<and> us_id s = uid) \<and>
      (q = Inr None \<longrightarrow> uid \<notin> us_id ` set (entries (db w)))"
    and list_reads: "ud_list_user_summaries D limit offset w = (l, w') \<Longrightarrow>
      db w' = db w \<and> (\<forall>ss. l = Inr ss \<longrightarrow> ss = take (unat limit) (drop (unat offset) (entries (db w))))"
    and count_reads: "ud_count_users D w = (n, w') \<Longrightarrow>
      db w' = db w \<and> (\<forall>k. n = Inr k \<longrightarrow> k = of_nat (length (entries (db w))))"
    and answers: "(\<And>i. pg_link_at E i = Pg_Up) \<Longrightarrow>
      \<not> isl (fst (ud_get_user_summary D uid v)) \<and> \<not> isl (fst (ud_count_users D v)) \<and>
      (offset < 2 ^ 63 \<longrightarrow> \<not> isl (fst (ud_list_user_summaries D limit offset v)))"
begin

lemma get_user_Inr:
  assumes "repo_get_user E D uid w = (g, w')"
  shows "db w' = db w \<and> (\<forall>u. g = Inr u \<longrightarrow> ad_id u = uid \<and> stored_role (db w) uid = Some (ad_role u))"
proof -
  obtain q w1 where q: "ud_get_user_summary D uid w = (q, w1)" by fastforce
  note f = get_reads [OF q]
  obtain rr w2 where rr: "role_for E uid w1 = (rr, w2)" by fastforce
  note ro = read_onlyD [OF read_only_role_for rr]
  show ?thesis
  proof (cases "\<exists>s. q = Inr (Some s)")
    case False
    with assms q f show ?thesis
      by (cases q) (auto simp: repo_get_user_def from_directory_def map_errE_def bindE_def liftE_def map_err_def split: option.splits)
  next
    case True
    then obtain s where s: "q = Inr (Some s)" ..
    with f have known: "uid \<in> usr_id ` set (users (db w1))" and "us_id s = uid"
      by (auto simp: entries_users [symmetric])
    with assms q s rr f ro role_for_Inr [OF _ known] show ?thesis
      by (cases rr) (auto simp: repo_get_user_def from_directory_def map_errE_def bindE_def liftE_def map_err_def
          admin_user_of_def AdminUser_new_def)
  qed
qed

lemma is_admin_Inr:
  assumes "repo_is_admin E D uid w = (g, w')"
  shows "db w' = db w \<and> (\<forall>b. g = Inr b \<longrightarrow> (\<exists>role. stored_role (db w) uid = Some role \<and> b = role_is_admin role))"
proof -
  obtain q w1 where q: "ud_get_user_summary D uid w = (q, w1)" by fastforce
  note f = get_reads [OF q]
  obtain rr w2 where rr: "role_for E uid w1 = (rr, w2)" by fastforce
  note ro = read_onlyD [OF read_only_role_for rr]
  show ?thesis
  proof (cases "\<exists>s. q = Inr (Some s)")
    case False
    with assms q f show ?thesis
      by (cases q) (auto simp: repo_is_admin_def from_directory_def map_errE_def bindE_def map_err_def split: if_splits)
  next
    case True
    then obtain s where s: "q = Inr (Some s)" ..
    with f have known: "uid \<in> usr_id ` set (users (db w1))" by (auto simp: entries_users [symmetric])
    with assms q s rr f ro role_for_Inr [OF _ known] show ?thesis
      by (cases rr) (auto simp: repo_is_admin_def from_directory_def map_errE_def bindE_def map_err_def)
  qed
qed

lemma update_role_effect:
  assumes "repo_update_role E D uid role w = (g, w')"
  shows "(\<exists>e. g = Inl e) \<and> db w' = db w \<or>
         stored_role (db w') = (stored_role (db w))(uid \<mapsto> role) \<and> only_role_of uid (db w) (db w') \<and>
         (\<forall>u. g = Inr u \<longrightarrow> ad_id u = uid \<and> ad_role u = role)"
proof -
  obtain q w1 where q: "admin_queryE E (upsert_role uid (role_as_str role)) w = (q, w1)" by fastforce
  have w1: "(\<exists>e. q = Inl e) \<and> db w1 = db w \<or>
      stored_role (db w1) = (stored_role (db w))(uid \<mapsto> role) \<and> only_role_of uid (db w) (db w1)"
    using upsert_role_effect [of uid role "pg_now E (tick w)" "db w"] q
    by (cases "pg_link_at E (tick w)")
       (auto simp: admin_queryE_def stmtE_def map_errE_def map_err_def split: if_splits)
  show ?thesis
  proof (cases q)
    case (Inl e)
    with assms q w1 show ?thesis by (auto simp: repo_update_role_def bindE_def)
  next
    case (Inr x)
    with assms q have "repo_get_user E D uid w1 = (g, w')" by (simp add: repo_update_role_def bindE_def)
    from get_user_Inr [OF this] w1 Inr show ?thesis by auto
  qed
qed

lemma is_admin_up:
  assumes "\<And>i. pg_link_at E i = Pg_Up" and "stored_role (db w) uid = Some role"
  shows "\<exists>w'. repo_is_admin E D uid w = (Inr (role_is_admin role), w') \<and> db w' = db w"
proof -
  obtain q w1 where q: "ud_get_user_summary D uid w = (q, w1)" by fastforce
  note f = get_reads [OF q]
  have "uid \<in> us_id ` set (entries (db w))"
    using assms(2) by (auto simp: entries_users stored_role_def split: if_splits)
  moreover have "\<not> isl q" using answers [OF assms(1), of uid w] q by simp
  ultimately obtain s where s: "q = Inr (Some s)" using f by (cases q) auto
  obtain w2 where "role_for E uid w1 = (Inr role, w2)" "db w2 = db w1"
    using role_for_up [OF assms(1), of w1 uid role] assms(2) f by auto
  with q s f show ?thesis
    by (simp add: repo_is_admin_def from_directory_def map_errE_def bindE_def)
qed

lemma list_users_up:
  assumes "\<And>i. pg_link_at E i = Pg_Up" and "db_wf (db w)" and "page_offset page per_page < 2 ^ 63"
  shows "\<exists>w'. repo_list_users E D page per_page w =
           (Inr \<lparr>lu_users = map (\<lambda>s. admin_user_of s (the (stored_role (db w) (us_id s))))
                    (take (unat per_page) (drop (unat (page_offset page per_page)) (entries (db w)))),
                 lu_total = of_nat (length (entries (db w)))\<rparr>, w') \<and> db w' = db w"
proof -
  let ?page = "take (unat per_page) (drop (unat (page_offset page per_page)) (entries (db w)))"
  obtain l w1 where l: "ud_list_user_summaries D per_page (page_offset page per_page) w = (l, w1)" by fastforce
  moreover have "\<not> isl l" using answers [OF assms(1), of _ w "page_offset page per_page" per_page] l assms(3) by simp
  ultimately have l1: "l = Inr ?page" "db w1 = db w" using list_reads [OF l] by (cases l; simp)+
  obtain n w2 where n: "ud_count_users D w1 = (n, w2)" by fastforce
  moreover have "\<not> isl n" using answers [OF assms(1), of _ w1] n by simp
  ultimately have n1: "n = Inr (of_nat (length (entries (db w))))" "db w2 = db w"
    using count_reads [OF n] l1(2) by (cases n; simp)+
  have "set (map us_id ?page) \<subseteq> usr_id ` set (users (db w2))"
    using n1(2) by (auto simp: entries_users [symmetric] dest: in_set_takeD in_set_dropD)
  from assigned_roles_up [OF assms(1) _ this] assms(2) n1(2)
  obtain m w3 where m: "assigned_roles_for E (map us_id ?page) w2 = (Inr m, w3)" "db w3 = db w"
      and roles: "\<And>s. s \<in> set ?page \<Longrightarrow>
        stored_role (db w) (us_id s) = Some (case m (us_id s) of Some role \<Rightarrow> role | None \<Rightarrow> Role_User)"
    by auto
  have "map (\<lambda>s. admin_user_of s (case m (us_id s) of Some role \<Rightarrow> role | None \<Rightarrow> Role_User)) ?page =
        map (\<lambda>s. admin_user_of s (the (stored_role (db w) (us_id s)))) ?page"
    using roles by simp
  with l l1 n n1 m show ?thesis
    by (simp add: repo_list_users_def from_directory_def map_errE_def bindE_def Let_def)
qed

end

sublocale directory \<subseteq> repository: admin_store "postgres_admin_repo E D" stored_role
  by unfold_locales
     (simp_all add: postgres_admin_repo_def is_admin_Inr get_user_Inr update_role_effect)

text \<open>The users in the order of the directory.\<close>

definition listed_users :: "database \<Rightarrow> user_summary list" where
  "listed_users d =
     map into_summary (sort_key (\<lambda>r. - usr_created_at r) (sort_key (\<lambda>r. - uint (usr_id r)) (users d)))"

interpretation postgres_directory: directory E "postgres_user_directory E" listed_users
  for E :: "('e) env_scheme"
proof
  show "us_id ` set (listed_users d) = usr_id ` set (users d)" for d
    by (simp add: listed_users_def into_summary_def image_image)
  show "db w' = db w \<and> (\<forall>s. q = Inr (Some s) \<longrightarrow> s \<in> set (listed_users (db w)) \<and> us_id s = uid) \<and>
      (q = Inr None \<longrightarrow> uid \<notin> us_id ` set (listed_users (db w)))"
    if "ud_get_user_summary (postgres_user_directory E) uid w = (q, w')" for uid q and w w' :: "'f world_scheme"
    using that
    by (cases "pg_link_at E (tick w)"; cases "find (\<lambda>r. usr_id r = uid) (users (db w))")
       (auto simp: postgres_user_directory_def get_user_summary_def dir_queryE_def stmtE_def select_user_by_id_def
         bindE_def map_errE_def map_err_def listed_users_def into_summary_def find_None_iff dest: find_SomeD)
  show "db w' = db w \<and> (\<forall>ss. l = Inr ss \<longrightarrow> ss = take (unat limit) (drop (unat offset) (listed_users (db w))))"
    if "ud_list_user_summaries (postgres_user_directory E) limit offset w = (l, w')" for limit offset l and w w' :: "'f world_scheme"
    using that
    by (cases "pg_link_at E (tick w)")
       (auto simp: postgres_user_directory_def list_user_summaries_def dir_queryE_def stmtE_def select_users_page_def
         bindE_def map_errE_def map_err_def liftE_def listed_users_def take_map drop_map split: if_splits)
  show "db w' = db w \<and> (\<forall>k. n = Inr k \<longrightarrow> k = of_nat (length (listed_users (db w))))"
    if "ud_count_users (postgres_user_directory E) w = (n, w')" for n and w w' :: "'f world_scheme"
    using that
    by (cases "pg_link_at E (tick w)")
       (auto simp: postgres_user_directory_def count_users_def dir_queryE_def stmtE_def count_users_stmt_def
         bindE_def map_errE_def map_err_def listed_users_def)
  show "\<not> isl (fst (ud_get_user_summary (postgres_user_directory E) uid v)) \<and>
      \<not> isl (fst (ud_count_users (postgres_user_directory E) v)) \<and>
      (offset < 2 ^ 63 \<longrightarrow> \<not> isl (fst (ud_list_user_summaries (postgres_user_directory E) limit offset v)))"
    if "\<And>i. pg_link_at E i = Pg_Up" for uid offset limit and v :: "'f world_scheme"
    using that
    by (simp add: postgres_user_directory_def get_user_summary_def count_users_def list_user_summaries_def dir_queryE_def
        stmtE_up select_user_by_id_def count_users_stmt_def select_users_page_def bindE_def map_errE_def map_err_def
        liftE_def returnE_def)
qed


section \<open>Properties\<close>

abbreviation admin_repo :: "('e) env_scheme \<Rightarrow> 'z world_scheme admin_repository" where
  "admin_repo E \<equiv> postgres_admin_repo E (postgres_user_directory E)"

text \<open>
  C15. A request for a new role changes the database only if the requesting user is an
  admin by the database, asks for somebody else, names one of the two roles and an
  existing user; then it changes the role of that user, to the role asked for, and nothing
  else.  Whatever the connection does, an answer other than 200 with no such change means
  that nothing changed, and an answer 200 means that the change was made.
\<close>

theorem role_change_authorised:
  assumes "update_user_role_handler T (admin_repo E) user target req w = (resp, w')"
  shows "status resp \<noteq> 200 \<and> db w' = db w \<or>
         (\<exists>role. stored_role (db w) (au_user_id user) = Some Role_Admin \<and> au_user_id user \<noteq> target \<and>
            role_try_from (uq_role req) = Inr role \<and> stored_role (db w) target \<noteq> None \<and>
            stored_role (db w') = (stored_role (db w))(target \<mapsto> role) \<and> only_role_of target (db w) (db w'))"
  by (rule postgres_directory.repository.handler_outcome [OF assms])

text \<open>
  C16. No sequence of role requests, whoever sends them, takes the last admin: a database
  with an admin has one after every sequence of requests, each run to its end before the
  next one.
\<close>

definition after_role_requests ::
  "('e) env_scheme \<Rightarrow> api_text \<Rightarrow> (authenticated_user \<times> uuid \<times> update_role_request) list \<Rightarrow> 'z world_scheme \<Rightarrow> 'z world_scheme" where
  "after_role_requests E T reqs w =
     fold (\<lambda>(user, target, req) w. snd (update_user_role_handler T (admin_repo E) user target req w)) reqs w"

lemma role_request_keeps_admin:
  assumes "stored_role (db w) a = Some Role_Admin"
  shows "\<exists>b. stored_role (db (snd (update_user_role_handler T (admin_repo E) user target req w))) b = Some Role_Admin"
proof -
  obtain resp w' where call: "update_user_role_handler T (admin_repo E) user target req w = (resp, w')" by fastforce
  from postgres_directory.repository.handler_outcome [OF call] assms show ?thesis
    by (elim disjE exE conjE) (auto simp: call)
qed

theorem admins_never_vanish:
  assumes "\<exists>a. stored_role (db w) a = Some Role_Admin"
  shows "\<exists>b. stored_role (db (after_role_requests E T reqs w)) b = Some Role_Admin"
  using assms
proof (induction reqs arbitrary: w)
  case (Cons r reqs)
  obtain user target req where r: "r = (user, target, req)" by (cases r)
  obtain a where "stored_role (db w) a = Some Role_Admin" using Cons.prems ..
  then have "\<exists>b. stored_role (db (snd (update_user_role_handler T (admin_repo E) user target req w))) b = Some Role_Admin"
    by (rule role_request_keeps_admin)
  from Cons.IH [OF this] show ?case by (simp add: after_role_requests_def r)
qed (simp add: after_role_requests_def)

text \<open>
  C27. For an admin, with the database reachable, the pages of the user list fit together:
  the first \<open>n\<close> pages, one after the other, are the first \<open>n\<close> times \<open>per_page\<close> users in the
  order of the directory, each with its own role, with no user skipped or repeated; every
  page reports the number of all users and the page size, which is between 1 and 500.
  The offset never wraps around, up to the last page a \<open>u32\<close> can name.
\<close>

definition page_response ::
  "('e) env_scheme \<Rightarrow> api_text \<Rightarrow> authenticated_user \<Rightarrow> u32 option \<Rightarrow> 'z world_scheme \<Rightarrow> nat \<Rightarrow> users_response response" where
  "page_response E T user per_page w p =
     fst (list_users_handler T (admin_repo E) user \<lparr>lq_page = Some (of_nat p), lq_per_page = per_page\<rparr> w)"

definition user_view :: "api_text \<Rightarrow> database \<Rightarrow> user_summary \<Rightarrow> user_response" where
  "user_view T d s = user_to_response T (admin_user_of s (the (stored_role d (us_id s))))"

lemma per_page_bounds: "normalize_per_page raw \<in> {1..500}"
  by (auto simp: normalize_per_page_def Let_def MAX_PAGE_SIZE_def not_less word_le_nat_alt Suc_le_eq unat_gt_0)

lemma unat_ucast_u64: "unat (ucast (x :: u32) :: u64) = unat x"
proof -
  have "unat x < 2 ^ 32" using unsigned_less [of x] by simp
  then show ?thesis by (simp add: unsigned_ucast_eq take_bit_nat_eq_self)
qed

lemma unat_page_offset:
  assumes "0 < p" and "p < 2 ^ 32" and "pp \<le> 500"
  shows "unat (page_offset (of_nat p) pp) = (p - 1) * unat pp" and "(p - 1) * unat pp < 2 ^ 63"
proof -
  have u: "unat (of_nat p :: u32) = p" using assms(2) by (simp add: unat_of_nat take_bit_nat_eq_self)
  have pp: "unat pp \<le> 500" using assms(3) by (simp add: word_le_nat_alt)
  have "(p - 1) * unat pp \<le> 2 ^ 32 * 500" using assms(2) pp by (intro mult_le_mono) simp_all
  then show lt: "(p - 1) * unat pp < 2 ^ 63" by simp
  have "unat (ucast (saturating_sub (of_nat p) 1 :: u32) :: u64) = p - 1"
    using u by (simp add: unat_ucast_u64 unat_saturating_sub)
  moreover have "unat (ucast pp :: u64) = unat pp" by (simp add: unat_ucast_u64)
  ultimately show "unat (page_offset (of_nat p) pp) = (p - 1) * unat pp"
    using lt by (simp add: page_offset_def unat_word_ariths)
qed

lemma page_response_up:
  fixes per_page :: "u32 option"
  assumes "\<And>i. pg_link_at E i = Pg_Up" and "db_wf (db w)"
    and "stored_role (db w) (au_user_id user) = Some Role_Admin" and "0 < p" and "p < 2 ^ 32"
  defines "k \<equiv> unat (normalize_per_page per_page)"
  shows "page_response E T user per_page w p =
    Json_Response 200 \<lparr>ul_items = map (user_view T (db w)) (take k (drop ((p - 1) * k) (listed_users (db w)))),
      ul_page = of_nat p, ul_per_page = normalize_per_page per_page, ul_total = of_nat (length (listed_users (db w)))\<rparr>"
proof -
  obtain w1 where adm: "repo_is_admin E (postgres_user_directory E) (au_user_id user) w = (Inr True, w1)" "db w1 = db w"
    using postgres_directory.is_admin_up [OF assms(1,3)] by (auto simp: role_is_admin_def)
  have "normalize_per_page per_page \<le> 500" using per_page_bounds by simp
  note off = unat_page_offset [OF assms(4,5) this]
  then have "page_offset (of_nat p) (normalize_per_page per_page) < 2 ^ 63" by (simp add: word_less_nat_alt)
  from postgres_directory.list_users_up [OF assms(1) _ this, of w1] assms(2) adm(2) off(1)
  obtain w2 where lst: "repo_list_users E (postgres_user_directory E) (of_nat p) (normalize_per_page per_page) w1 =
      (Inr \<lparr>lu_users = map (\<lambda>s. admin_user_of s (the (stored_role (db w) (us_id s))))
               (take k (drop ((p - 1) * k) (listed_users (db w)))),
            lu_total = of_nat (length (listed_users (db w)))\<rparr>, w2)"
    by (auto simp: k_def)
  have "unat (of_nat p :: u32) = p" using assms(5) by (simp add: unat_of_nat take_bit_nat_eq_self)
  then have "(of_nat p :: u32) \<noteq> 0" using assms(4) by (metis less_numeral_extra(3) unat_0)
  then have "normalize_page (Some (of_nat p)) = Inr (of_nat p)" by (simp add: normalize_page_def)
  with adm(1) lst show ?thesis
    by (simp add: page_response_def list_users_handler_def as_admin_def postgres_admin_repo_def list_users_def
        Let_def user_view_def)
qed

lemma concat_pages: "concat (map (\<lambda>p. take k (drop ((p - 1) * k) xs)) [1..<Suc n]) = take (n * k) xs"
proof (induction n)
  case (Suc n)
  have "take (Suc n * k) xs = take (n * k) xs @ take k (drop (n * k) xs)"
    by (simp add: take_add [symmetric] add.commute)
  with Suc show ?case by simp
qed simp

theorem user_pages_partition:
  assumes "\<And>i. pg_link_at E i = Pg_Up" and "db_wf (db w)"
    and "stored_role (db w) (au_user_id user) = Some Role_Admin" and "n < 2 ^ 32"
  shows "\<exists>bodies. map (page_response E T user per_page w) [1..<Suc n] = map (Json_Response 200) bodies \<and>
           concat (map ul_items bodies) =
             map (user_view T (db w)) (take (n * unat (normalize_per_page per_page)) (listed_users (db w))) \<and>
           (\<forall>b \<in> set bodies. ul_total b = of_nat (length (users (db w))) \<and> ul_per_page b \<in> {1..500})"
proof -
  let ?k = "unat (normalize_per_page per_page)"
  let ?body = "\<lambda>p. \<lparr>ul_items = map (user_view T (db w)) (take ?k (drop ((p - 1) * ?k) (listed_users (db w)))),
      ul_page = of_nat p, ul_per_page = normalize_per_page per_page, ul_total = of_nat (length (listed_users (db w)))\<rparr>"
  have "map (page_response E T user per_page w) [1..<Suc n] = map (Json_Response 200) (map ?body [1..<Suc n])"
    using page_response_up [OF assms(1-3)] assms(4) by (auto simp del: upt_Suc)
  moreover have "concat (map ul_items (map ?body [1..<Suc n])) = map (user_view T (db w)) (take (n * ?k) (listed_users (db w)))"
    using concat_pages [of ?k "map (user_view T (db w)) (listed_users (db w))" n]
    by (simp add: comp_def take_map drop_map del: upt_Suc)
  moreover have "\<forall>b \<in> set (map ?body [1..<Suc n]). ul_total b = of_nat (length (users (db w))) \<and> ul_per_page b \<in> {1..500}"
    using per_page_bounds by (auto simp: listed_users_def)
  ultimately show ?thesis by blast
qed


subsection \<open>The properties at work\<close>

definition admin_db :: database where
  "admin_db = ann_db\<lparr>users := [ann_row, ann_row\<lparr>usr_id := 2, usr_username := Some ''bob'', usr_email := ''bob@x.io''\<rparr>],
     user_roles := [\<lparr>rol_user_id = 1, rol_role = ''admin'', rol_updated_at = 0\<rparr>,
                    \<lparr>rol_user_id = 2, rol_role = ''admin'', rol_updated_at = 0\<rparr>]\<rparr>"

abbreviation admin_world :: world where
  "admin_world \<equiv> \<lparr>tick = 0, db = admin_db\<rparr>"

abbreviation signed_in :: "uuid \<Rightarrow> authenticated_user" where
  "signed_in uid \<equiv> \<lparr>au_user_id = uid, au_jti = 9, au_exp = 0\<rparr>"

lemma admin_db_roles: "stored_role admin_db 1 = Some Role_Admin" "stored_role admin_db 2 = Some Role_Admin"
  by code_simp+

lemma admin_db_wf: "db_wf admin_db"
  by (simp add: db_wf_def unique_by_def admin_db_def ann_db_def empty_db_def ann_row_def ann_session_row_def)

text \<open>
  The check of the handler and its write are separate steps: when each of two admins is
  checked before the other's role is written, they demote each other, and no admin is left.
\<close>

lemma admins_demote_each_other:
  "case repo_is_admin calm_env (postgres_user_directory calm_env) 1 admin_world of
     (a, w1) \<Rightarrow> (case repo_is_admin calm_env (postgres_user_directory calm_env) 2 w1 of
       (b, w2) \<Rightarrow> (case update_user_role (admin_repo calm_env) 1 2 ''user'' w2 of
         (_, w3) \<Rightarrow> (case update_user_role (admin_repo calm_env) 2 1 ''user'' w3 of
           (_, w4) \<Rightarrow> a = Inr True \<and> b = Inr True \<and>
             (\<forall>u \<in> set (users (db w4)). stored_role (db w4) (usr_id u) \<noteq> Some Role_Admin))))"
  by code_simp

theorem role_change_authorised_witness:
  "\<exists>resp w'. update_user_role_handler demo_text (admin_repo calm_env) (signed_in 1) 2 \<lparr>uq_role = ''user''\<rparr> admin_world = (resp, w') \<and>
     status resp = 200 \<and> stored_role (db w') = (stored_role admin_db)(2 \<mapsto> Role_User)"
proof -
  obtain resp w' where call:
    "update_user_role_handler demo_text (admin_repo calm_env) (signed_in 1) 2 \<lparr>uq_role = ''user''\<rparr> admin_world = (resp, w')"
    by fastforce
  have "status (fst (update_user_role_handler demo_text (admin_repo calm_env) (signed_in 1) 2 \<lparr>uq_role = ''user''\<rparr> admin_world)) = 200"
    by code_simp
  then have ok: "status resp = 200" by (simp add: call)
  have "role_try_from ''user'' = Inr Role_User" by code_simp
  with role_change_authorised [OF call] ok call show ?thesis by auto
qed

theorem admins_never_vanish_witness:
  "\<exists>b. stored_role (db (after_role_requests calm_env demo_text
     [(signed_in 1, 2, \<lparr>uq_role = ''user''\<rparr>), (signed_in 2, 1, \<lparr>uq_role = ''user''\<rparr>)] admin_world)) b = Some Role_Admin"
proof -
  have "\<exists>a. stored_role (db admin_world) a = Some Role_Admin" using admin_db_roles by auto
  then show ?thesis by (rule admins_never_vanish)
qed

theorem user_pages_partition_witness:
  "\<exists>bodies. map (page_response calm_env demo_text (signed_in 1) (Some 1) admin_world) [1..<Suc 2] = map (Json_Response 200) bodies \<and>
     concat (map ul_items bodies) = map (user_view demo_text admin_db) (listed_users admin_db)"
proof -
  have up: "\<And>i. pg_link_at calm_env i = Pg_Up" by (simp add: calm_env_def)
  have "take (2 * unat (normalize_per_page (Some 1))) (listed_users admin_db) = listed_users admin_db"
    by (simp add: normalize_per_page_def MAX_PAGE_SIZE_def listed_users_def admin_db_def)
  with user_pages_partition [OF up, of admin_world "signed_in 1" 2 demo_text "Some 1"] admin_db_roles admin_db_wf
  show ?thesis by auto
qed

end
