(* ===== verification/Settings.thy ===== *)
theory Settings
  imports Rust_Std
begin

text \<open>
  The service's settings: \<open>crates/shared/src/config/settings.rs\<close>.  The process environment is
  an argument, the url crate a parameter.  The errors of the code are texts; here each text
  is a constructor with what the text reports.
\<close>

section \<open>The process environment\<close>

datatype env_var = Not_Present | Not_Unicode | Var string

type_synonym environ = "string \<Rightarrow> env_var"

text \<open>\<open>std::env::var(name).ok()\<close> and \<open>unwrap_or_else\<close>.\<close>

fun var_ok :: "env_var \<Rightarrow> string option" where
  "var_ok (Var s) = Some s"
| "var_ok _ = None"

definition var_or :: "environ \<Rightarrow> string \<Rightarrow> string \<Rightarrow> string" where
  "var_or env name dflt = (case var_ok (env name) of Some s \<Rightarrow> s | None \<Rightarrow> dflt)"

datatype settings_error =
    Must_Be_Set string
  | Must_Be_Number string
  | Bad_Ssl_Flag string
  | Bad_Url string
  | Plaintext_Database "string option"
  | Cert_Without_Key
  | Key_Without_Cert

definition number_var ::
  "(string \<Rightarrow> 'a option) \<Rightarrow> environ \<Rightarrow> string \<Rightarrow> string \<Rightarrow> settings_error + 'a" where
  "number_var parse env name dflt = ok_or (Must_Be_Number name) (parse (var_or env name dflt))"


section \<open>The database URL\<close>

datatype url_host = Host_Domain string | Host_Ipv4 ip_addr | Host_Ipv6 ip_addr

record 'u url_lib =
  url_parse :: "string \<Rightarrow> string + 'u"
  query_pairs :: "'u \<Rightarrow> (string \<times> string) list"
  host :: "'u \<Rightarrow> url_host option"
  host_str :: "'u \<Rightarrow> string option"
  set_query_pairs :: "(string \<times> string) list \<Rightarrow> 'u \<Rightarrow> 'u"
  url_to_string :: "'u \<Rightarrow> string"

text \<open>
  What the crate documents: a URL whose query was replaced by the given pairs prints to a
  text that parses to a URL with the same host and these pairs.
\<close>

definition url_laws :: "'u url_lib \<Rightarrow> bool" where
  "url_laws U \<longleftrightarrow>
     (\<forall>u ps. \<exists>u'. url_parse U (url_to_string U (set_query_pairs U ps u)) = Inr u' \<and>
                  query_pairs U u' = ps \<and> host U u' = host U u)"

definition is_sslmode_key :: "string \<Rightarrow> bool" where
  "is_sslmode_key key \<longleftrightarrow> key = ''sslmode'' \<or> key = ''ssl-mode''"

text \<open>\<open>Iterator::last\<close>.\<close>

definition last_option :: "'a list \<Rightarrow> 'a option" where
  "last_option xs = (if xs = [] then None else Some (last xs))"

definition extract_sslmode :: "'u url_lib \<Rightarrow> 'u \<Rightarrow> string option" where
  "extract_sslmode U url =
     map_option (\<lambda>(key, val). to_lowercase val)
       (last_option (filter (\<lambda>(key, val). is_sslmode_key key) (query_pairs U url)))"

definition db_host_is_loopback :: "'u url_lib \<Rightarrow> 'u \<Rightarrow> bool" where
  "db_host_is_loopback U url =
     (case host U url of
        Some (Host_Ipv4 ip) \<Rightarrow> is_loopback ip
      | Some (Host_Ipv6 ip) \<Rightarrow> is_loopback ip
      | Some (Host_Domain domain) \<Rightarrow>
          eq_ignore_ascii_case domain ''localhost'' \<or>
          (case parse_ip domain of Some ip \<Rightarrow> is_loopback ip | None \<Rightarrow> False)
      | None \<Rightarrow> False)"

definition validate_database_ssl :: "'u url_lib \<Rightarrow> string \<Rightarrow> settings_error + unit" where
  "validate_database_ssl U url =
     bindR (map_err Bad_Url (url_parse U url)) (\<lambda>parsed.
       if extract_sslmode U parsed = Some ''disable'' \<and> \<not> db_host_is_loopback U parsed
       then Inl (Plaintext_Database (host_str U parsed)) else Inr ())"

text \<open>The warning, with the host it names.\<close>

definition database_ssl_warning :: "'u url_lib \<Rightarrow> string \<Rightarrow> string option option" where
  "database_ssl_warning U url =
     (case url_parse U url of
        Inl e \<Rightarrow> None
      | Inr parsed \<Rightarrow>
          if db_host_is_loopback U parsed then None
          else if extract_sslmode U parsed \<in> {None, Some ''prefer'', Some ''allow''}
          then Some (host_str U parsed) else None)"

definition force_sslmode_verify_full :: "'u url_lib \<Rightarrow> string \<Rightarrow> settings_error + string" where
  "force_sslmode_verify_full U url =
     bindR (map_err Bad_Url (url_parse U url)) (\<lambda>parsed.
       let remaining = filter (\<lambda>(key, val). \<not> is_sslmode_key key) (query_pairs U parsed)
       in Inr (url_to_string U (set_query_pairs U (remaining @ [(''sslmode'', ''verify-full'')]) parsed)))"


section \<open>Flags and paths\<close>

definition parse_required_ssl_flag :: "string option \<Rightarrow> settings_error + bool" where
  "parse_required_ssl_flag raw =
     (case raw of
        None \<Rightarrow> Inr False
      | Some val \<Rightarrow>
          let v = to_lowercase (trim val)
          in if v = '''' then Inr False
             else if v \<in> {''1'', ''true'', ''yes''} then Inr True
             else if v \<in> {''0'', ''false'', ''no''} then Inr False
             else Inl (Bad_Ssl_Flag v))"

definition parse_bool_env :: "environ \<Rightarrow> string \<Rightarrow> bool" where
  "parse_bool_env env name =
     (case var_ok (env name) of
        Some v \<Rightarrow> to_lowercase (trim v) \<in> {''1'', ''true'', ''yes''}
      | None \<Rightarrow> False)"

definition non_blank :: "string option \<Rightarrow> string option" where
  "non_blank raw = (case raw of None \<Rightarrow> None | Some s \<Rightarrow> if trim s = [] then None else Some (trim s))"

definition parse_tls_paths ::
  "string option \<Rightarrow> string option \<Rightarrow> settings_error + (string option \<times> string option)" where
  "parse_tls_paths raw_cert raw_key =
     (case (non_blank raw_cert, non_blank raw_key) of
        (Some _, None) \<Rightarrow> Inl Cert_Without_Key
      | (None, Some _) \<Rightarrow> Inl Key_Without_Cert
      | (cert, key) \<Rightarrow> Inr (cert, key))"

definition parse_ip_list :: "string \<Rightarrow> ip_addr list" where
  "parse_ip_list s = List.map_filter parse_ip (filter (\<lambda>s. s \<noteq> []) (map trim (split_char CHR '','' s)))"


section \<open>Settings\<close>

record settings =
  database_url :: string
  server_host :: string
  server_port :: u16
  tls_cert_path :: "string option"
  tls_key_path :: "string option"
  rate_limit_max_attempts :: u32
  rate_limit_window_seconds :: u64
  cors_allowed_origins :: string
  trusted_proxy_ips :: "ip_addr list"
  redis_url :: "string option"
  db_max_connections :: u32
  db_min_connections :: u32
  db_acquire_timeout_seconds :: u64
  db_idle_timeout_seconds :: u64
  db_max_lifetime_seconds :: u64
  db_require_ssl :: bool
  metrics_allowed_ips :: "ip_addr list"
  enable_swagger :: bool
  revocation_flush_interval_seconds :: u64

definition raw_database_url :: "'u url_lib \<Rightarrow> environ \<Rightarrow> bool \<Rightarrow> settings_error + string" where
  "raw_database_url U env require_ssl =
     bindR (ok_or (Must_Be_Set ''DATABASE_URL'') (var_ok (env ''DATABASE_URL''))) (\<lambda>raw.
       if require_ssl then force_sslmode_verify_full U raw else Inr raw)"

definition from_env :: "'u url_lib \<Rightarrow> environ \<Rightarrow> settings_error + settings" where
  "from_env U env =
     bindR (parse_required_ssl_flag (var_ok (env ''DB_REQUIRE_SSL''))) (\<lambda>require_ssl.
     bindR (parse_tls_paths (var_ok (env ''TLS_CERT_PATH'')) (var_ok (env ''TLS_KEY_PATH''))) (\<lambda>(cert, key).
     bindR (raw_database_url U env require_ssl) (\<lambda>url.
     bindR (validate_database_ssl U url) (\<lambda>_.
     bindR (number_var parse_u16 env ''SERVER_PORT'' ''3000'') (\<lambda>port.
     bindR (number_var parse_u32 env ''RATE_LIMIT_MAX_ATTEMPTS'' ''10'') (\<lambda>max_attempts.
     bindR (number_var parse_u64 env ''RATE_LIMIT_WINDOW_SECONDS'' ''300'') (\<lambda>window.
     bindR (number_var parse_u32 env ''DB_MAX_CONNECTIONS'' ''10'') (\<lambda>max_conn.
     bindR (number_var parse_u32 env ''DB_MIN_CONNECTIONS'' ''0'') (\<lambda>min_conn.
     bindR (number_var parse_u64 env ''DB_ACQUIRE_TIMEOUT_SECONDS'' ''30'') (\<lambda>acquire.
     bindR (number_var parse_u64 env ''DB_IDLE_TIMEOUT_SECONDS'' ''600'') (\<lambda>idle.
     bindR (number_var parse_u64 env ''DB_MAX_LIFETIME_SECONDS'' ''1800'') (\<lambda>lifetime.
     bindR (number_var parse_u64 env ''REVOCATION_FLUSH_INTERVAL_SECONDS'' ''5'') (\<lambda>flush.
       Inr \<lparr>database_url = url, server_host = var_or env ''SERVER_HOST'' ''127.0.0.1'', server_port = port,
            tls_cert_path = cert, tls_key_path = key, rate_limit_max_attempts = max_attempts,
            rate_limit_window_seconds = window,
            cors_allowed_origins = var_or env ''CORS_ALLOWED_ORIGINS'' '''',
            trusted_proxy_ips = parse_ip_list (var_or env ''TRUSTED_PROXY_IPS'' ''''),
            redis_url = (case var_ok (env ''REDIS_URL'') of
                           Some s \<Rightarrow> if trim s = [] then None else Some s | None \<Rightarrow> None),
            db_max_connections = max_conn, db_min_connections = min_conn,
            db_acquire_timeout_seconds = acquire, db_idle_timeout_seconds = idle,
            db_max_lifetime_seconds = lifetime, db_require_ssl = require_ssl,
            metrics_allowed_ips = parse_ip_list (var_or env ''METRICS_ALLOWED_IPS'' ''''),
            enable_swagger = parse_bool_env env ''ENABLE_SWAGGER'',
            revocation_flush_interval_seconds = flush\<rparr>)))))))))))))"

text \<open>What the Debug output shows of the two URLs: the database URL from its last \<open>@\<close> on,
  and the Redis URL as it is.\<close>

definition debug_database_url :: "settings \<Rightarrow> string" where
  "debug_database_url s = ''<redacted>@'' @ last (split_char CHR ''@'' (database_url s))"

definition debug_redis_url :: "settings \<Rightarrow> string option" where
  "debug_redis_url s = redis_url s"



section \<open>Facts\<close>

lemma last_option_append [simp]: "last_option (xs @ [x]) = Some x"
  by (simp add: last_option_def)

lemma lower_verify_full: "to_lowercase ''verify-full'' = ''verify-full''"
  by code_simp

lemma forced_sslmode:
  assumes "url_laws U" and "force_sslmode_verify_full U url = Inr url'"
  obtains u u' where "url_parse U url = Inr u" and "url_parse U url' = Inr u'" and "host U u' = host U u"
    and "query_pairs U u' = filter (\<lambda>(key, val). \<not> is_sslmode_key key) (query_pairs U u)
                              @ [(''sslmode'', ''verify-full'')]"
proof -
  obtain u where u: "url_parse U url = Inr u"
    and url': "url' = url_to_string U (set_query_pairs U
        (filter (\<lambda>(key, val). \<not> is_sslmode_key key) (query_pairs U u) @ [(''sslmode'', ''verify-full'')]) u)"
    using assms(2) unfolding force_sslmode_verify_full_def
    by (cases "url_parse U url") (simp_all add: Let_def)
  obtain u' where "url_parse U url' = Inr u'" "host U u' = host U u"
    "query_pairs U u' = filter (\<lambda>(key, val). \<not> is_sslmode_key key) (query_pairs U u) @ [(''sslmode'', ''verify-full'')]"
    unfolding url' using assms(1) [unfolded url_laws_def, rule_format,
        of "filter (\<lambda>(key, val). \<not> is_sslmode_key key) (query_pairs U u) @ [(''sslmode'', ''verify-full'')]" u]
    by (elim exE conjE)
  with u show thesis by (rule that)
qed

lemma sslmode_verify_full:
  assumes "query_pairs U u = ps @ [(''sslmode'', ''verify-full'')]"
  shows "extract_sslmode U u = Some ''verify-full''"
  by (simp add: extract_sslmode_def assms is_sslmode_key_def lower_verify_full [simplified])

lemma from_env_Inr:
  assumes "from_env U env = Inr s"
  shows "parse_required_ssl_flag (var_ok (env ''DB_REQUIRE_SSL'')) = Inr (db_require_ssl s)"
    and "raw_database_url U env (db_require_ssl s) = Inr (database_url s)"
    and "validate_database_ssl U (database_url s) = Inr ()"
    and "parse_tls_paths (var_ok (env ''TLS_CERT_PATH'')) (var_ok (env ''TLS_KEY_PATH''))
           = Inr (tls_cert_path s, tls_key_path s)"
  using assms unfolding from_env_def
  by (auto simp: bindR_eq_Inr)

lemma validate_database_ssl_Inr:
  "validate_database_ssl U url = Inr () \<longleftrightarrow>
     (\<exists>u. url_parse U url = Inr u \<and> (extract_sslmode U u = Some ''disable'' \<longrightarrow> db_host_is_loopback U u))"
  unfolding validate_database_ssl_def by (cases "url_parse U url") (simp_all split: if_split)

lemma parse_tls_paths_Inr:
  "parse_tls_paths c k = Inr (cert, key) \<Longrightarrow> (cert = None \<longleftrightarrow> key = None)"
  unfolding parse_tls_paths_def by (auto split: option.split_asm)

lemma raw_database_url_forced:
  "raw_database_url U env True = Inr url \<Longrightarrow> \<exists>raw. force_sslmode_verify_full U raw = Inr url"
  unfolding raw_database_url_def by (cases "var_ok (env ''DATABASE_URL'')") auto


section \<open>A URL library that satisfies the laws\<close>

text \<open>
  For the witnesses: URLs with a host name and query pairs, printed as a sequence of texts in
  which every byte is marked and every text is terminated.
\<close>

definition marked :: "string \<Rightarrow> string" where
  "marked s = concat (map (\<lambda>c. [CHR ''a'', c]) s) @ ''b''"

fun texts :: "string \<Rightarrow> string \<Rightarrow> string list" where
  "texts acc [] = []"
| "texts acc [c] = (if c = CHR ''b'' then [rev acc] else [])"
| "texts acc (c # d # s) = (if c = CHR ''b'' then rev acc # texts [] (d # s)
                            else if c = CHR ''a'' then texts (d # acc) s else [])"

fun pairs_of :: "string list \<Rightarrow> (string \<times> string) list" where
  "pairs_of (k # v # ss) = (k, v) # pairs_of ss"
| "pairs_of _ = []"

definition marked_url :: "string \<times> (string \<times> string) list \<Rightarrow> string" where
  "marked_url u = marked (fst u) @ concat (map (\<lambda>(k, v). marked k @ marked v) (snd u))"

definition marked_lib :: "(string \<times> (string \<times> string) list) url_lib" where
  "marked_lib = \<lparr>url_parse = (\<lambda>s. case texts [] s of [] \<Rightarrow> Inl ''empty host'' | h # ts \<Rightarrow> Inr (h, pairs_of ts)),
                 query_pairs = snd, host = (\<lambda>u. Some (Host_Domain (fst u))), host_str = (\<lambda>u. Some (fst u)),
                 set_query_pairs = (\<lambda>ps u. (fst u, ps)), url_to_string = marked_url\<rparr>"

lemma texts_b: "texts acc (CHR ''b'' # s) = rev acc # texts [] s"
  by (cases s) simp_all

lemma texts_marked: "texts acc (marked s @ rest) = (rev acc @ s) # texts [] rest"
  by (induction s arbitrary: acc) (simp_all add: marked_def texts_b)

lemma texts_pairs:
  "pairs_of (texts [] (concat (map (\<lambda>(k, v). marked k @ marked v) ps))) = ps"
  by (induction ps) (simp_all add: texts_marked case_prod_beta)

lemma marked_lib_laws: "url_laws marked_lib"
  by (simp add: url_laws_def marked_lib_def marked_url_def texts_marked texts_pairs)

text \<open>A deployment that demands TLS of a remote database whose URL disables it.\<close>

definition sample_url :: string where
  "sample_url = marked_url (''db'', [(''SSLMODE'', ''x''), (''ssl-mode'', ''DISABLE'')])"

definition sample_environ :: environ where
  "sample_environ =
     (\<lambda>_. Not_Present)(''DATABASE_URL'' := Var sample_url, ''DB_REQUIRE_SSL'' := Var '' Yes '')"


section \<open>Properties\<close>


lemma default_numbers:
  "\<exists>v. parse_u16 ''3000'' = Some v" "\<exists>v. parse_u32 ''10'' = Some v" "\<exists>v. parse_u64 ''300'' = Some v"
  "\<exists>v. parse_u32 ''0'' = Some v" "\<exists>v. parse_u64 ''30'' = Some v" "\<exists>v. parse_u64 ''600'' = Some v"
  "\<exists>v. parse_u64 ''1800'' = Some v" "\<exists>v. parse_u64 ''5'' = Some v"
  by (simp_all add: parse_u16_def parse_u32_def parse_u64_def parse_unsigned_def to_digit_def)

lemma sample_starts: "\<exists>s. from_env marked_lib sample_environ = Inr s \<and> db_require_ssl s"
proof -
  have flag: "parse_required_ssl_flag (Some '' Yes '') = Inr True" by code_simp
  have url: "force_sslmode_verify_full marked_lib sample_url
               = Inr (marked_url (''db'', [(''SSLMODE'', ''x''), (''sslmode'', ''verify-full'')]))" by code_simp
  have ok: "validate_database_ssl marked_lib (marked_url (''db'', [(''SSLMODE'', ''x''), (''sslmode'', ''verify-full'')])) = Inr ()"
    by code_simp
  show ?thesis
    using default_numbers
    by (auto simp: from_env_def sample_environ_def raw_database_url_def flag url ok number_var_def var_or_def
        parse_tls_paths_def non_blank_def)
qed






end
