(* ===== verification/Password.thy ===== *)
theory Password
  imports Jwt
begin

text \<open>
  Passwords: \<open>crates/auth/src/domain/services/password_verification.rs\<close> (hashing, and the
  verification whose cost does not depend on whether the account exists) and the limiter
  that runs this work off the async threads, \<open>bcrypt_task.rs\<close>.  The bcrypt crate is a
  parameter.
\<close>

section \<open>bcrypt and the work it costs\<close>

text \<open>\<open>bcrypt::hash\<close> draws a salt (the first argument numbers the draw) and fails on a cost
  it does not support; \<open>bcrypt::verify\<close> fails on a hash it cannot read.\<close>

record bcrypt_lib =
  bc_hash :: "nat \<Rightarrow> string \<Rightarrow> u32 \<Rightarrow> string + string"
  bc_verify :: "string \<Rightarrow> string \<Rightarrow> string + bool"

text \<open>What the process has spent its time on.\<close>

datatype work = Hash_Work u32 | Verify_Work string | Sleep_Work nat

text \<open>The static cache of dummy hashes, and the log of the work.\<close>

record pw_state =
  ps_draws :: nat
  ps_dummies :: "(u32, string option) hash_map"
  ps_work :: "work list"

definition hash_call :: "('b) bcrypt_lib_scheme \<Rightarrow> string \<Rightarrow> u32 \<Rightarrow> pw_state \<Rightarrow> (string + string) \<times> pw_state" where
  "hash_call L password cost st =
     (bc_hash L (ps_draws st) password cost,
      st\<lparr>ps_draws := Suc (ps_draws st), ps_work := ps_work st @ [Hash_Work cost]\<rparr>)"

definition verify_call :: "('b) bcrypt_lib_scheme \<Rightarrow> string \<Rightarrow> string \<Rightarrow> pw_state \<Rightarrow> (string + bool) \<times> pw_state" where
  "verify_call L password hash st =
     (bc_verify L password hash, st\<lparr>ps_work := ps_work st @ [Verify_Work hash]\<rparr>)"

definition sleep_ms :: "nat \<Rightarrow> pw_state \<Rightarrow> pw_state" where
  "sleep_ms ms st = st\<lparr>ps_work := ps_work st @ [Sleep_Work ms]\<rparr>"


section \<open>Timing-safe verification\<close>

definition DUMMY_PASSWORD :: string where
  "DUMMY_PASSWORD = ''dummy-password-for-timing-safety''"

definition dummy_password_hash ::
  "('b) bcrypt_lib_scheme \<Rightarrow> u32 \<Rightarrow> pw_state \<Rightarrow> string option \<times> pw_state" where
  "dummy_password_hash L cost st =
     (case map_of (ps_dummies st) cost of
        Some hash \<Rightarrow> (hash, st)
      | None \<Rightarrow>
          (case hash_call L DUMMY_PASSWORD cost st of (r, st1) \<Rightarrow>
             let hash = (case r of Inr h \<Rightarrow> Some h | Inl e \<Rightarrow> None)
             in (hash, st1\<lparr>ps_dummies := hm_or_insert cost hash (ps_dummies st1)\<rparr>)))"

definition stored_hash_cost :: "string \<Rightarrow> u32 option" where
  "stored_hash_cost hash =
     (case split_char CHR ''$'' hash of
        first # version # cost # rest \<Rightarrow> if first \<noteq> [] then None else parse_u32 cost
      | _ \<Rightarrow> None)"

fun verify_times :: "('b) bcrypt_lib_scheme \<Rightarrow> nat \<Rightarrow> string \<Rightarrow> pw_state \<Rightarrow> pw_state" where
  "verify_times L 0 hash st = st"
| "verify_times L (Suc n) hash st = verify_times L n hash (snd (verify_call L DUMMY_PASSWORD hash st))"

definition pad_timing_to ::
  "('b) bcrypt_lib_scheme \<Rightarrow> string \<Rightarrow> u32 \<Rightarrow> pw_state \<Rightarrow> pw_state" where
  "pad_timing_to L stored_hash configured_cost st =
     (case stored_hash_cost stored_hash of
        None \<Rightarrow> st
      | Some stored_cost \<Rightarrow>
          if stored_cost \<ge> configured_cost then st
          else (case dummy_password_hash L stored_cost st of
                  (None, st1) \<Rightarrow> sleep_ms 50 st1
                | (Some dummy, st1) \<Rightarrow>
                    let extra_verifies = push_bit (unat (configured_cost - stored_cost)) (1 :: u32) - 1
                    in verify_times L (unat extra_verifies) dummy st1))"

definition hash_password ::
  "('b) bcrypt_lib_scheme \<Rightarrow> string \<Rightarrow> u32 \<Rightarrow> pw_state \<Rightarrow> (string + string) \<times> pw_state" where
  "hash_password L password cost = hash_call L password cost"

definition verify_password_timing_safe ::
  "('b) bcrypt_lib_scheme \<Rightarrow> user option \<Rightarrow> string \<Rightarrow> u32 \<Rightarrow> pw_state \<Rightarrow> bool \<times> pw_state" where
  "verify_password_timing_safe L user password cost st =
     (case Option.bind user (\<lambda>u. map_option hash_as_str (u_password_hash u)) of
        Some hash \<Rightarrow>
          (case verify_call L password hash (pad_timing_to L hash cost st) of
             (Inr valid, st1) \<Rightarrow> (valid, st1)
           | (Inl e, st1) \<Rightarrow> (False, st1))
      | None \<Rightarrow>
          (case dummy_password_hash L cost st of
             (Some hash, st1) \<Rightarrow> (False, snd (verify_call L password hash st1))
           | (None, st1) \<Rightarrow> (False, sleep_ms 50 st1)))"

text \<open>\<open>User::verify_password\<close>, without the padding.\<close>

definition verify_password :: "('b) bcrypt_lib_scheme \<Rightarrow> user \<Rightarrow> string \<Rightarrow> pw_state \<Rightarrow> bool \<times> pw_state" where
  "verify_password L user password st =
     (case u_password_hash user of
        None \<Rightarrow> (False, st)
      | Some hash \<Rightarrow>
          (case verify_call L password (hash_as_str hash) st of
             (Inr valid, st1) \<Rightarrow> (valid, st1)
           | (Inl e, st1) \<Rightarrow> (False, st1)))"


section \<open>The limiter\<close>

text \<open>
  The world of the auth service holds the process state of the password service.  A
  blocking task completes, or is lost (it panicked or was cancelled) with or without its
  work done.
\<close>

record auth_world = world +
  pw :: pw_state

datatype task_fate = Completed | Lost bool string

record auth_lib_env = auth_env +
  bcrypt :: bcrypt_lib
  task_at :: "nat \<Rightarrow> task_fate"

definition DEFAULT_BCRYPT_MAX_CONCURRENT :: nat where
  "DEFAULT_BCRYPT_MAX_CONCURRENT = 8"

record bcrypt_limiter =
  bl_permits :: nat
  bl_closed :: bool

definition BcryptLimiter_new :: "nat \<Rightarrow> bcrypt_limiter" where
  "BcryptLimiter_new max_concurrent = \<lparr>bl_permits = max max_concurrent 1, bl_closed = False\<rparr>"

definition run_bounded ::
  "('e) auth_lib_env_scheme \<Rightarrow> bcrypt_limiter \<Rightarrow> (pw_state \<Rightarrow> 'a \<times> pw_state)
   \<Rightarrow> ('z auth_world_scheme, auth_error, 'a) eff" where
  "run_bounded E limiter f w =
     (if bl_closed limiter
      then (Inl (InternalError ''bcrypt concurrency semaphore was unexpectedly closed''), w)
      else (case f (pw w) of (x, st) \<Rightarrow>
        (case task_at E (tick w) of
           Completed \<Rightarrow> (Inr x, (next_tick w)\<lparr>pw := st\<rparr>)
         | Lost executed e \<Rightarrow>
             (Inl (InternalError (''bcrypt task failed to complete: '' @ e)),
              if executed then (next_tick w)\<lparr>pw := st\<rparr> else next_tick w))))"


section \<open>Facts\<close>

lemma call_simps [simp]:
  "ps_dummies (snd (verify_call L p h st)) = ps_dummies st"
  "ps_work (snd (verify_call L p h st)) = ps_work st @ [Verify_Work h]"
  "fst (verify_call L p h st) = bc_verify L p h"
  "ps_dummies (sleep_ms n st) = ps_dummies st"
  "ps_work (sleep_ms n st) = ps_work st @ [Sleep_Work n]"
  by (simp_all add: verify_call_def sleep_ms_def)

lemma verify_times_simps [simp]:
  "ps_dummies (verify_times L n h st) = ps_dummies st"
  "ps_work (verify_times L n h st) = ps_work st @ replicate n (Verify_Work h)"
  by (induction n arbitrary: st) (simp_all add: replicate_app_Cons_same)

text \<open>A dummy hash is computed at most once per cost.\<close>

lemma dummy_password_hash_cached:
  "map_of (ps_dummies st) cost = Some hash \<Longrightarrow> dummy_password_hash L cost st = (hash, st)"
  by (simp add: dummy_password_hash_def)

lemma dummy_password_hash_caches:
  "map_of (ps_dummies (snd (dummy_password_hash L cost st))) cost = Some (fst (dummy_password_hash L cost st))"
  by (simp add: dummy_password_hash_def hash_call_def Let_def map_of_hm_or_insert split: option.split)


text \<open>
  The verification accepts exactly when the account exists, has a password hash, and bcrypt
  verifies the password against that hash; a missing account, an account without a password
  and an unreadable hash are all refused.
\<close>

lemma password_verdict:
  "fst (verify_password_timing_safe L user password cost st) \<longleftrightarrow>
     (\<exists>u hash. user = Some u \<and> u_password_hash u = Some hash \<and>
               bc_verify L password (hash_as_str hash) = Inr True)"
proof (cases "Option.bind user (\<lambda>u. map_option hash_as_str (u_password_hash u))")
  case None
  then have "\<not> fst (verify_password_timing_safe L user password cost st)"
    by (simp add: verify_password_timing_safe_def split: prod.split option.split)
  with None show ?thesis by auto
next
  case (Some h)
  then obtain u hash where "user = Some u" "u_password_hash u = Some hash" "h = hash_as_str hash"
    by (auto simp: bind_eq_Some_conv)
  then show ?thesis
    by (auto simp: verify_password_timing_safe_def verify_call_def split: sum.split)
qed


section \<open>Properties\<close>

text \<open>The time of a piece of work, in units of one bcrypt round: the work of a hash or of a
  verification doubles with each step of its cost.\<close>

fun work_units :: "work \<Rightarrow> nat" where
  "work_units (Hash_Work cost) = 2 ^ unat cost"
| "work_units (Verify_Work hash) =
     (case stored_hash_cost hash of Some cost \<Rightarrow> 2 ^ unat cost | None \<Rightarrow> 0)"
| "work_units (Sleep_Work ms) = 0"

definition spent :: "pw_state \<Rightarrow> nat" where
  "spent st = sum_list (map work_units (ps_work st))"

definition warm :: "pw_state \<Rightarrow> u32 \<Rightarrow> bool" where
  "warm st cost \<longleftrightarrow>
     (\<exists>d. map_of (ps_dummies st) cost = Some (Some d) \<and> stored_hash_cost d = Some cost)"

lemma unat_extra_verifies:
  assumes "c < cost" and "cost \<le> (31 :: u32)"
  shows "unat (2 ^ unat (cost - c) - 1 :: u32) = 2 ^ (unat cost - unat c) - 1"
proof -
  have "unat (cost - c) = unat cost - unat c"
    using assms(1) by (simp add: unat_sub word_le_nat_alt word_less_nat_alt)
  moreover have "unat cost - unat c < 32"
    using assms(2) by (simp add: word_le_nat_alt)
  then have "(2 :: nat) ^ (unat cost - unat c) < 2 ^ 32"
    by (intro power_strict_increasing) simp_all
  then have "unat (2 ^ (unat cost - unat c) :: u32) = 2 ^ (unat cost - unat c)"
    using unat_of_nat [of "2 ^ (unat cost - unat c)", where ?'a = 32] by simp
  moreover have "unat (x - 1 :: u32) = unat x - 1" if "0 < unat x" for x
    using that by (simp add: unat_sub word_le_nat_alt)
  ultimately show ?thesis by simp
qed

lemma spent_pad:
  assumes "stored_hash_cost hash = Some c" and "c \<le> cost" and "cost \<le> 31" and "warm st c"
  shows "spent (pad_timing_to L hash cost st) + 2 ^ unat c = spent st + 2 ^ unat cost"
proof (cases "c = cost")
  case True
  then show ?thesis using assms(1) by (simp add: pad_timing_to_def)
next
  case False
  with assms(2) have less: "c < cost" by simp
  obtain d where d: "map_of (ps_dummies st) c = Some (Some d)" "stored_hash_cost d = Some c"
    using assms(4) by (auto simp: warm_def)
  let ?n = "2 ^ (unat cost - unat c) - 1 :: nat"
  have "?n * 2 ^ unat c + 2 ^ unat c = 2 ^ (unat cost - unat c) * (2 :: nat) ^ unat c"
    by (simp add: algebra_simps)
  also have "\<dots> = 2 ^ unat cost"
    using assms(2) by (simp add: power_add [symmetric] word_le_nat_alt)
  finally have total: "?n * 2 ^ unat c + 2 ^ unat c = (2 :: nat) ^ unat cost" .
  have "pad_timing_to L hash cost st = verify_times L ?n d st"
    using less assms(1)
    by (simp add: pad_timing_to_def dummy_password_hash_cached [OF d(1)] unat_extra_verifies [OF less assms(3)] Let_def)
  then have "spent (pad_timing_to L hash cost st) = spent st + ?n * 2 ^ unat c"
    by (simp add: spent_def d(2) sum_list_replicate)
  with total show ?thesis by linarith
qed



end
