(* ===== verification/Auth_Settings.thy ===== *)
theory Auth_Settings
  imports Settings Password
begin

text \<open>
  The settings of the auth module: \<open>crates/auth/src/config/auth_settings.rs\<close>.  The bounds on
  the bcrypt cost and concurrency, the checks of the signing secret and of the password of
  the seeded account, and \<open>AuthSettings::from_env\<close> with all its early returns.  The error
  texts are constructors with the numbers the texts report.
\<close>

section \<open>Characters of a UTF-8 string\<close>

definition is_continuation :: "char \<Rightarrow> bool" where
  "is_continuation c \<longleftrightarrow> 128 \<le> (of_char c :: nat) \<and> (of_char c :: nat) < 192"

text \<open>\<open>str::chars\<close>: each character with its bytes.\<close>

function chars :: "string \<Rightarrow> string list" where
  "chars [] = []"
| "chars (c # s) = (c # takeWhile is_continuation s) # chars (dropWhile is_continuation s)"
  by pat_completeness auto
termination
  by (relation "measure length") (auto simp: le_imp_less_Suc length_dropWhile_le)

definition unique_chars :: "string \<Rightarrow> nat" where
  "unique_chars s = card (set (chars s))"


section \<open>The checks\<close>

datatype auth_settings_error =
    Unset_Var string
  | Not_A_Number string
  | Not_Unicode_Var string
  | Cost_Too_Low u32
  | Cost_Too_High u32
  | Concurrency_Zero
  | Concurrency_Too_High u64
  | Secret_Too_Short nat
  | Secret_Few_Chars nat
  | Password_Too_Short nat
  | Password_Known_Weak
  | Password_Few_Classes nat

definition MIN_JWT_SECRET_LEN :: nat where "MIN_JWT_SECRET_LEN = 32"
definition MIN_UNIQUE_CHARS :: nat where "MIN_UNIQUE_CHARS = 8"
definition DEFAULT_BCRYPT_COST :: u32 where "DEFAULT_BCRYPT_COST = 12"
definition MIN_BCRYPT_COST :: u32 where "MIN_BCRYPT_COST = 12"
definition MAX_BCRYPT_COST :: u32 where "MAX_BCRYPT_COST = 31"
definition MAX_BCRYPT_MAX_CONCURRENT :: u64 where "MAX_BCRYPT_MAX_CONCURRENT = 512"
definition MIN_DEFAULT_PASSWORD_LEN :: nat where "MIN_DEFAULT_PASSWORD_LEN = 12"
definition RECOMMENDED_DEFAULT_PASSWORD_LEN :: nat where "RECOMMENDED_DEFAULT_PASSWORD_LEN = 16"

lemmas auth_limits =
  MIN_JWT_SECRET_LEN_def MIN_UNIQUE_CHARS_def DEFAULT_BCRYPT_COST_def MIN_BCRYPT_COST_def MAX_BCRYPT_COST_def
  MAX_BCRYPT_MAX_CONCURRENT_def MIN_DEFAULT_PASSWORD_LEN_def RECOMMENDED_DEFAULT_PASSWORD_LEN_def

definition validate_bcrypt_cost :: "u32 \<Rightarrow> auth_settings_error + unit" where
  "validate_bcrypt_cost cost =
     (if cost < MIN_BCRYPT_COST then Inl (Cost_Too_Low cost)
      else if cost > MAX_BCRYPT_COST then Inl (Cost_Too_High cost) else Inr ())"

definition validate_bcrypt_max_concurrent :: "u64 \<Rightarrow> auth_settings_error + unit" where
  "validate_bcrypt_max_concurrent val =
     (if val = 0 then Inl Concurrency_Zero
      else if val > MAX_BCRYPT_MAX_CONCURRENT then Inl (Concurrency_Too_High val) else Inr ())"

definition validate_jwt_secret :: "string \<Rightarrow> auth_settings_error + unit" where
  "validate_jwt_secret secret =
     (if length secret < MIN_JWT_SECRET_LEN then Inl (Secret_Too_Short (length secret))
      else if unique_chars secret < MIN_UNIQUE_CHARS then Inl (Secret_Few_Chars (unique_chars secret))
      else Inr ())"

definition jwt_secret_low_entropy_warning :: "string \<Rightarrow> bool" where
  "jwt_secret_low_entropy_warning secret \<longleftrightarrow>
     unique_chars secret < max (length secret div 10) MIN_UNIQUE_CHARS"

definition KNOWN_WEAK_PASSWORDS :: "string list" where
  "KNOWN_WEAK_PASSWORDS =
     [''password'', ''password1'', ''password123'', ''admin'', ''admin123'', ''administrator'', ''12345678'',
      ''123456789'', ''1234567890'', ''qwerty123'', ''qwertyuiop'', ''letmein123'', ''welcome123'', ''changeme'',
      ''changeme123'', ''changethis'', ''default123'', ''rootroot'', ''p@ssw0rd'', ''password1!'']"

text \<open>
  The four character classes.  A character outside ASCII counts as a symbol; its bytes are
  all outside ASCII, so asking the bytes is asking the characters.
\<close>

definition is_ascii_lowercase :: "char \<Rightarrow> bool" where
  "is_ascii_lowercase c \<longleftrightarrow> 97 \<le> (of_char c :: nat) \<and> (of_char c :: nat) \<le> 122"

definition is_ascii_uppercase :: "char \<Rightarrow> bool" where
  "is_ascii_uppercase c \<longleftrightarrow> 65 \<le> (of_char c :: nat) \<and> (of_char c :: nat) \<le> 90"

definition is_ascii_digit :: "char \<Rightarrow> bool" where
  "is_ascii_digit c \<longleftrightarrow> 48 \<le> (of_char c :: nat) \<and> (of_char c :: nat) \<le> 57"

definition is_symbol :: "char \<Rightarrow> bool" where
  "is_symbol c \<longleftrightarrow> \<not> (is_ascii_lowercase c \<or> is_ascii_uppercase c \<or> is_ascii_digit c)"

definition class_count :: "string \<Rightarrow> nat" where
  "class_count password =
     length (filter (\<lambda>present. present)
       [list_ex is_ascii_lowercase password, list_ex is_ascii_uppercase password,
        list_ex is_ascii_digit password, list_ex is_symbol password])"

definition validate_default_user_password :: "string \<Rightarrow> auth_settings_error + unit" where
  "validate_default_user_password password =
     (if length password < MIN_DEFAULT_PASSWORD_LEN then Inl (Password_Too_Short (length password))
      else if list_ex (\<lambda>weak. to_lowercase password = weak) KNOWN_WEAK_PASSWORDS then Inl Password_Known_Weak
      else if class_count password < 3 then Inl (Password_Few_Classes (class_count password))
      else Inr ())"

definition default_user_password_below_recommended_length :: "string \<Rightarrow> bool" where
  "default_user_password_below_recommended_length password \<longleftrightarrow>
     length password < RECOMMENDED_DEFAULT_PASSWORD_LEN"


section \<open>AuthSettings\<close>

record auth_settings =
  default_user_username :: string
  default_user_password :: string
  default_user_email :: string
  google_client_id :: string
  jwt_secret :: string
  jwt_issuer :: string
  jwt_audience :: string
  access_token_expiry_minutes :: int
  refresh_token_expiry_days :: int
  bcrypt_cost :: u32
  bcrypt_max_concurrent :: u64
  bcrypt_limiter :: bcrypt_limiter

text \<open>A number that must be Unicode when it is set.\<close>

definition strict_number ::
  "(string \<Rightarrow> 'a option) \<Rightarrow> environ \<Rightarrow> string \<Rightarrow> 'a \<Rightarrow> auth_settings_error + 'a" where
  "strict_number parse env name dflt =
     (case env name of
        Var val \<Rightarrow> ok_or (Not_A_Number name) (parse val)
      | Not_Present \<Rightarrow> Inr dflt
      | Not_Unicode \<Rightarrow> Inl (Not_Unicode_Var name))"

definition checked_var ::
  "(string \<Rightarrow> auth_settings_error + unit) \<Rightarrow> environ \<Rightarrow> string \<Rightarrow> auth_settings_error + string" where
  "checked_var validate env name =
     bindR (ok_or (Unset_Var name) (var_ok (env name))) (\<lambda>val.
     bindR (validate val) (\<lambda>_. Inr val))"

definition auth_from_env :: "environ \<Rightarrow> auth_settings_error + auth_settings" where
  "auth_from_env env =
     bindR (strict_number parse_u64 env ''BCRYPT_MAX_CONCURRENT'' (of_nat DEFAULT_BCRYPT_MAX_CONCURRENT)) (\<lambda>max_concurrent.
     bindR (validate_bcrypt_max_concurrent max_concurrent) (\<lambda>_.
     bindR (checked_var validate_default_user_password env ''DEFAULT_USER_PASSWORD'') (\<lambda>password.
     bindR (checked_var validate_jwt_secret env ''JWT_SECRET'') (\<lambda>secret.
     bindR (ok_or (Not_A_Number ''ACCESS_TOKEN_EXPIRY_MINUTES'')
              (parse_i64 (var_or env ''ACCESS_TOKEN_EXPIRY_MINUTES'' ''15''))) (\<lambda>minutes.
     bindR (ok_or (Not_A_Number ''REFRESH_TOKEN_EXPIRY_DAYS'')
              (parse_i64 (var_or env ''REFRESH_TOKEN_EXPIRY_DAYS'' ''7''))) (\<lambda>days.
     bindR (strict_number parse_u32 env ''BCRYPT_COST'' DEFAULT_BCRYPT_COST) (\<lambda>cost.
     bindR (validate_bcrypt_cost cost) (\<lambda>_.
       Inr \<lparr>default_user_username = var_or env ''DEFAULT_USER_USERNAME'' ''admin'',
            default_user_password = password,
            default_user_email = var_or env ''DEFAULT_USER_EMAIL'' ''admin@example.com'',
            google_client_id = var_or env ''GOOGLE_CLIENT_ID'' '''',
            jwt_secret = secret,
            jwt_issuer = var_or env ''JWT_ISSUER'' ''app-home-services'',
            jwt_audience = var_or env ''JWT_AUDIENCE'' ''app-home-services'',
            access_token_expiry_minutes = minutes, refresh_token_expiry_days = days,
            bcrypt_cost = cost, bcrypt_max_concurrent = max_concurrent,
            bcrypt_limiter = BcryptLimiter_new (unat max_concurrent)\<rparr>))))))))"

text \<open>
  The preview of the signing secret in the Debug output.  Slicing a \<open>str\<close> inside a character
  panics (None).
\<close>

definition jwt_preview :: "string \<Rightarrow> string option" where
  "jwt_preview secret =
     (if length secret > 8
      then if is_continuation (secret ! 8) then None else Some (take 8 secret @ ''...'')
      else Some ''(too short)'')"


section \<open>Facts\<close>

lemma to_lowercase_no_k: "CHR ''k'' \<notin> set (to_lowercase s) \<Longrightarrow> to_lowercase s = map ascii_lower s"
  by (induction s rule: to_lowercase.induct) (auto split: if_split_asm)

lemma ascii_lower_letter: "is_ascii_lowercase (ascii_lower c) \<Longrightarrow> is_ascii_lowercase c \<or> is_ascii_uppercase c"
  by (auto simp: is_ascii_lowercase_def is_ascii_uppercase_def ascii_lower_def)

lemma letters_two_classes:
  assumes "list_all (\<lambda>c. is_ascii_lowercase c \<or> is_ascii_uppercase c) s"
  shows "class_count s < 3"
proof -
  have "\<not> is_ascii_digit c" if "is_ascii_lowercase c \<or> is_ascii_uppercase c" for c
    using that by (auto simp: is_ascii_lowercase_def is_ascii_uppercase_def is_ascii_digit_def)
  then have "\<not> list_ex is_ascii_digit s" "\<not> list_ex is_symbol s"
    using assms by (auto simp: list_ex_iff list_all_iff is_symbol_def)
  then show ?thesis by (simp add: class_count_def)
qed

lemma long_weak_password:
  assumes "w \<in> set KNOWN_WEAK_PASSWORDS" and "MIN_DEFAULT_PASSWORD_LEN \<le> length w"
  shows "list_all is_ascii_lowercase w"
proof -
  have "list_all (\<lambda>w. MIN_DEFAULT_PASSWORD_LEN \<le> length w \<longrightarrow> list_all is_ascii_lowercase w) KNOWN_WEAK_PASSWORDS"
    by code_simp
  with assms show ?thesis by (simp add: list_all_iff [of _ KNOWN_WEAK_PASSWORDS])
qed

lemma weak_passwords_no_k: "w \<in> set KNOWN_WEAK_PASSWORDS \<Longrightarrow> CHR ''k'' \<notin> set w"
proof -
  have "list_all (\<lambda>w. \<not> List.member w CHR ''k'') KNOWN_WEAK_PASSWORDS" by code_simp
  then show "w \<in> set KNOWN_WEAK_PASSWORDS \<Longrightarrow> CHR ''k'' \<notin> set w" by (simp add: list_all_iff)
qed

lemma weak_password_few_classes:
  assumes "to_lowercase p \<in> set KNOWN_WEAK_PASSWORDS" and "MIN_DEFAULT_PASSWORD_LEN \<le> length p"
  shows "class_count p < 3"
proof -
  have l: "to_lowercase p = map ascii_lower p"
    by (rule to_lowercase_no_k [OF weak_passwords_no_k [OF assms(1)]])
  then have "list_all is_ascii_lowercase (map ascii_lower p)"
    using long_weak_password [OF assms(1)] assms(2) by simp
  then have "list_all (\<lambda>c. is_ascii_lowercase c \<or> is_ascii_uppercase c) p"
    using ascii_lower_letter by (simp add: list_all_iff)
  then show ?thesis by (rule letters_two_classes)
qed

lemma chars_concat: "concat (chars s) = s"
  by (induction s rule: chars.induct) simp_all

lemma auth_from_env_Inr:
  assumes "auth_from_env env = Inr s"
  shows "validate_bcrypt_max_concurrent (bcrypt_max_concurrent s) = Inr ()"
    and "validate_default_user_password (default_user_password s) = Inr ()"
    and "validate_jwt_secret (jwt_secret s) = Inr ()"
    and "validate_bcrypt_cost (bcrypt_cost s) = Inr ()"
    and "bcrypt_limiter s = BcryptLimiter_new (unat (bcrypt_max_concurrent s))"
  using assms unfolding auth_from_env_def checked_var_def
  by (auto simp: bindR_eq_Inr)


section \<open>Properties\<close>

text \<open>
  C34.  The auth module starts only with hardened settings: a bcrypt cost between 12 and 31,
  so at least the OWASP floor and never one that bcrypt refuses; an open semaphore with
  exactly the configured 1 to 512 permits; a signing secret of at least 32 bytes with at
  least 8 different characters; and a password of the seeded account of at least 12 bytes
  from at least three character classes.
\<close>

theorem auth_settings_hardened:
  assumes "auth_from_env env = Inr s"
  shows "12 \<le> unat (bcrypt_cost s) \<and> unat (bcrypt_cost s) \<le> 31 \<and>
         1 \<le> bl_permits (bcrypt_limiter s) \<and> bl_permits (bcrypt_limiter s) \<le> 512 \<and>
         bl_permits (bcrypt_limiter s) = unat (bcrypt_max_concurrent s) \<and> \<not> bl_closed (bcrypt_limiter s) \<and>
         32 \<le> length (jwt_secret s) \<and> 8 \<le> card (set (chars (jwt_secret s))) \<and>
         12 \<le> length (default_user_password s) \<and> 3 \<le> class_count (default_user_password s)"
proof -
  note facts = auth_from_env_Inr [OF assms]
  have cost: "12 \<le> bcrypt_cost s" "bcrypt_cost s \<le> 31"
    using facts(4) by (simp_all add: validate_bcrypt_cost_def auth_limits not_less split: if_split_asm)
  have conc: "0 < bcrypt_max_concurrent s" "bcrypt_max_concurrent s \<le> 512"
    using facts(1) by (simp_all add: validate_bcrypt_max_concurrent_def auth_limits not_less word_gt_0 split: if_split_asm)
  have "32 \<le> length (jwt_secret s)" "8 \<le> card (set (chars (jwt_secret s)))"
    using facts(3) by (simp_all add: validate_jwt_secret_def auth_limits unique_chars_def not_less split: if_split_asm)
  moreover have "12 \<le> length (default_user_password s)" "3 \<le> class_count (default_user_password s)"
    using facts(2) by (simp_all add: validate_default_user_password_def auth_limits not_less split: if_split_asm)
  moreover have "12 \<le> unat (bcrypt_cost s)" "unat (bcrypt_cost s) \<le> 31"
    using cost by (simp_all add: word_le_nat_alt)
  moreover have "1 \<le> unat (bcrypt_max_concurrent s)" "unat (bcrypt_max_concurrent s) \<le> 512"
    using conc by (simp_all add: word_le_nat_alt word_less_nat_alt)
  ultimately show ?thesis by (simp add: facts(5) BcryptLimiter_new_def)
qed

definition sample_auth_environ :: environ where
  "sample_auth_environ =
     (\<lambda>_. Not_Present)(''DEFAULT_USER_PASSWORD'' := Var ''Tr0ub4dor-and-3'',
                        ''JWT_SECRET'' := Var ''0123456789abcdef0123456789abcdef'')"

theorem auth_settings_hardened_witness:
  "\<exists>s. auth_from_env sample_auth_environ = Inr s \<and> 12 \<le> unat (bcrypt_cost s) \<and> 3 \<le> class_count (default_user_password s)"
proof -
  have pw: "validate_default_user_password ''Tr0ub4dor-and-3'' = Inr ()" by code_simp
  have secret: "validate_jwt_secret ''0123456789abcdef0123456789abcdef'' = Inr ()" by code_simp
  have numbers: "\<exists>v. parse_i64 ''15'' = Some v" "\<exists>v. parse_i64 ''7'' = Some v"
    by (simp_all add: parse_i64_def parse_unsigned_def to_digit_def)
  have "\<exists>s. auth_from_env sample_auth_environ = Inr s"
    using numbers
    by (auto simp: auth_from_env_def sample_auth_environ_def checked_var_def pw secret strict_number_def var_or_def
        validate_bcrypt_max_concurrent_def validate_bcrypt_cost_def auth_limits DEFAULT_BCRYPT_MAX_CONCURRENT_def)
  then obtain s where s: "auth_from_env sample_auth_environ = Inr s" by (elim exE)
  from auth_settings_hardened [OF s] s show ?thesis by (intro exI [of _ s] conjI) simp_all
qed

text \<open>
  The list of known weak passwords decides nothing: the password check accepts exactly
  the passwords of at least 12 bytes from at least three character classes, since every
  listed password that is long enough, in any mixture of cases, has at most two classes.
\<close>

theorem weak_password_list_redundant:
  "validate_default_user_password p = Inr () \<longleftrightarrow> 12 \<le> length p \<and> 3 \<le> class_count p"
proof -
  have "class_count p < 3" if "list_ex (\<lambda>weak. to_lowercase p = weak) KNOWN_WEAK_PASSWORDS" "12 \<le> length p"
    using weak_password_few_classes [of p] that by (simp add: list_ex_iff auth_limits)
  then show ?thesis
    by (auto simp: validate_default_user_password_def MIN_DEFAULT_PASSWORD_LEN_def not_less)
qed

text \<open>The preview of a secret that passes every check can panic: byte 8 inside a character.\<close>

lemma jwt_preview_can_panic:
  "jwt_preview (''abcdefg'' @ [CHR 0xC3, CHR 0xA9] @ ''hijklmnopqrstuvwxyz0123456789'') = None \<and>
   validate_jwt_secret (''abcdefg'' @ [CHR 0xC3, CHR 0xA9] @ ''hijklmnopqrstuvwxyz0123456789'') = Inr ()"
  by code_simp

end
