(* ===== verification/Auth_Use_Cases.thy ===== *)
theory Auth_Use_Cases
  imports User_Repo Auth_Settings
begin

text \<open>
  The use cases of the auth crate: \<open>login_with_password.rs\<close>, \<open>login_with_google.rs\<close>,
  \<open>refresh_token.rs\<close>, \<open>logout.rs\<close> and \<open>record_audit_entry.rs\<close>, over the ports for users,
  tokens and the identity provider; and what they do to the stored users and sessions,
  proved once for every repository that keeps the contract of \<open>User_Repo\<close>.

  Each step of a use case reads the clock of its own step of the execution.  An operation
  of the aggregate is one step; it may read the clock several times.
\<close>

section \<open>Operations\<close>

definition on_aggregate ::
  "('e) env_scheme \<Rightarrow> ((nat \<Rightarrow> time) \<Rightarrow> user_aggregate \<Rightarrow> 'r) \<Rightarrow> user_aggregate \<Rightarrow> ('z world_scheme, auth_error, 'r) eff" where
  "on_aggregate E f ag w = (Inr (f (utc E (tick w)) ag), next_tick w)"

text \<open>\<open>HashedPassword::new(limiter.run_bounded(|| bcrypt::hash(token, cost)).await?...)\<close>.\<close>

definition hashed_refresh_token ::
  "('e) auth_lib_env_scheme \<Rightarrow> auth_settings \<Rightarrow> string \<Rightarrow> ('z auth_world_scheme, auth_error, hashed_password) eff" where
  "hashed_refresh_token E settings token =
     bindE (run_bounded E (bcrypt_limiter settings) (hash_call (bcrypt E) token (bcrypt_cost settings))) (\<lambda>r.
     bindE (liftE (map_err (\<lambda>_. TokenGenerationFailed) r)) (\<lambda>hash.
     liftE (map_err (\<lambda>_. TokenGenerationFailed) (HashedPassword_new hash))))"

record login_result =
  lr_user :: user
  lr_session_id :: uuid
  lr_access_token :: string
  lr_refresh_token :: string
  lr_events :: "event list"

text \<open>The steps both kinds of login share, once the account is known: up to the write, and
  with it.\<close>

definition prepare_session ::
  "('e) auth_lib_env_scheme \<Rightarrow> jwt_service \<Rightarrow> auth_settings \<Rightarrow> auth_method \<Rightarrow> user_aggregate
   \<Rightarrow> ('z auth_world_scheme, auth_error, uuid \<times> jwt_pair \<times> new_session \<times> user_aggregate) eff" where
  "prepare_session E jwt_service settings auth_method aggregate =
     bindE (now_v7E E) (\<lambda>session_id.
     bindE (generate_token_pair E jwt_service (u_id (ag_user aggregate)) session_id) (\<lambda>token_pair.
     bindE (nowE E) (\<lambda>now.
     bindE (hashed_refresh_token E settings (jp_refresh_token token_pair)) (\<lambda>refresh_hash.
     bindE (on_aggregate E (\<lambda>clk. add_session clk session_id refresh_hash
              (now + days (refresh_token_expiry_days settings)) auth_method) aggregate) (\<lambda>(added, ag).
     bindE (liftE added) (\<lambda>new_session.
     returnE (session_id, token_pair, new_session, ag)))))))"

definition open_session ::
  "('e) auth_lib_env_scheme \<Rightarrow> 'z auth_world_scheme user_repository \<Rightarrow> jwt_service \<Rightarrow> auth_settings
   \<Rightarrow> auth_method \<Rightarrow> user_aggregate \<Rightarrow> ('z auth_world_scheme, auth_error, login_result) eff" where
  "open_session E user_repo jwt_service settings auth_method aggregate =
     bindE (prepare_session E jwt_service settings auth_method aggregate) (\<lambda>(session_id, token_pair, new_session, ag).
     bindE (ur_save_aggregate user_repo ag [new_session]) (\<lambda>_.
     returnE \<lparr>lr_user = ag_user ag, lr_session_id = session_id, lr_access_token = jp_access_token token_pair,
              lr_refresh_token = jp_refresh_token token_pair, lr_events = fst (take_events ag)\<rparr>))"

definition create_session_tokens ::
  "('e) auth_lib_env_scheme \<Rightarrow> 'z auth_world_scheme user_repository \<Rightarrow> jwt_service \<Rightarrow> auth_settings
   \<Rightarrow> user_aggregate \<Rightarrow> ('z auth_world_scheme, auth_error, login_result) eff" where
  "create_session_tokens E user_repo jwt_service settings = open_session E user_repo jwt_service settings Password"

definition login_with_password ::
  "('e) auth_lib_env_scheme \<Rightarrow> 'z auth_world_scheme user_repository \<Rightarrow> jwt_service \<Rightarrow> auth_settings
   \<Rightarrow> string \<Rightarrow> string \<Rightarrow> ('z auth_world_scheme, auth_error, login_result) eff" where
  "login_with_password E user_repo jwt_service settings username password =
     bindE (ur_find_aggregate_by_username user_repo username) (\<lambda>aggregate.
     bindE (run_bounded E (bcrypt_limiter settings)
              (verify_password_timing_safe (bcrypt E) (map_option ag_user aggregate) password (bcrypt_cost settings)))
       (\<lambda>password_ok.
     if \<not> password_ok then throwE InvalidCredentials
     else bindE (liftE (ok_or InvalidCredentials aggregate)) (create_session_tokens E user_repo jwt_service settings)))"

text \<open>The identity provider's port.\<close>

record google_user_info =
  gi_email :: string
  gi_name :: string

record 'w auth_provider_port =
  ap_verify_id_token :: "string \<Rightarrow> ('w, auth_error, google_user_info) eff"

record google_login_result = login_result +
  lr_is_new_user :: bool

definition find_or_create ::
  "'z auth_world_scheme user_repository \<Rightarrow> google_user_info
   \<Rightarrow> ('z auth_world_scheme, auth_error, user_aggregate \<times> bool) eff" where
  "find_or_create user_repo user_info =
     bindE (ur_find_aggregate_by_email user_repo (gi_email user_info)) (\<lambda>existing.
       case existing of
         Some agg \<Rightarrow> returnE (agg, False)
       | None \<Rightarrow>
           bindE (liftE (map_err (\<lambda>e. InternalError (domain_error_display e)) (Email_new (gi_email user_info)))) (\<lambda>email.
           bindE (ur_create user_repo (new_google email (gi_name user_info))) (\<lambda>user.
           bindE (ur_find_aggregate_by_id user_repo (u_id user)) (\<lambda>found.
           bindE (liftE (ok_or (InternalError ''created user not found'') found)) (\<lambda>agg.
           returnE (agg, True))))))"

definition google_events ::
  "('e) env_scheme \<Rightarrow> bool \<Rightarrow> login_result \<Rightarrow> ('z world_scheme, auth_error, google_login_result) eff" where
  "google_events E is_new_user lr =
     bindE (if is_new_user
            then bindE (nowE E) (\<lambda>now. returnE (UserCreated (UserCreated_new now (u_id (lr_user lr)) Google) # lr_events lr))
            else returnE (lr_events lr)) (\<lambda>events.
     returnE (login_result.extend (lr\<lparr>lr_events := events\<rparr>) (google_login_result.fields is_new_user)))"

definition login_with_google ::
  "('e) auth_lib_env_scheme \<Rightarrow> 'z auth_world_scheme user_repository \<Rightarrow> 'z auth_world_scheme auth_provider_port
   \<Rightarrow> jwt_service \<Rightarrow> auth_settings \<Rightarrow> string \<Rightarrow> ('z auth_world_scheme, auth_error, google_login_result) eff" where
  "login_with_google E user_repo auth_provider jwt_service settings id_token =
     bindE (ap_verify_id_token auth_provider id_token) (\<lambda>user_info.
     bindE (find_or_create user_repo user_info) (\<lambda>(aggregate, is_new_user).
     bindE (open_session E user_repo jwt_service settings GoogleOAuth aggregate) (google_events E is_new_user)))"

record refresh_result =
  rr_user_id :: uuid
  rr_session_id :: uuid
  rr_access_token :: string
  rr_refresh_token :: string
  rr_auth_method :: auth_method
  rr_events :: "event list"

text \<open>Whether the presented token is the one whose hash the session stores.\<close>

definition presented_token_matches ::
  "('e) auth_lib_env_scheme \<Rightarrow> auth_settings \<Rightarrow> session option \<Rightarrow> string \<Rightarrow> ('z auth_world_scheme, auth_error, bool) eff" where
  "presented_token_matches E settings session token =
     (case session of
        Some session \<Rightarrow>
          bindE (run_bounded E (bcrypt_limiter settings)
                   (verify_call (bcrypt E) token (hash_as_str (s_refresh_token_hash session)))) (\<lambda>verified.
          returnE (case verified of Inr m \<Rightarrow> m | Inl e \<Rightarrow> False))
      | None \<Rightarrow> returnE False)"

text \<open>
  The refresh in its two halves, which meet where the aggregate has been read: what comes
  before decides nothing, and what comes after works on the aggregate read there.
\<close>

definition refresh_load ::
  "('e) auth_lib_env_scheme \<Rightarrow> 'z auth_world_scheme user_repository \<Rightarrow> jwt_service \<Rightarrow> string
   \<Rightarrow> ('z auth_world_scheme, auth_error, refresh_token_claims \<times> user_aggregate) eff" where
  "refresh_load E user_repo jwt_service token =
     bindE (validate_refresh_token E jwt_service token) (\<lambda>claims.
     bindE (ur_find_aggregate_by_id user_repo (rc_sub claims)) (\<lambda>found.
     bindE (liftE (ok_or UserNotFound found)) (\<lambda>aggregate.
     returnE (claims, aggregate))))"

definition prepare_rotation ::
  "('e) auth_lib_env_scheme \<Rightarrow> jwt_service \<Rightarrow> string \<Rightarrow> auth_settings \<Rightarrow> refresh_token_claims \<Rightarrow> user_aggregate
   \<Rightarrow> ('z auth_world_scheme, auth_error, uuid \<times> jwt_pair \<times> (auth_error + new_session) \<times> user_aggregate) eff" where
  "prepare_rotation E jwt_service token settings claims aggregate =
     bindE (now_v7E E) (\<lambda>new_session_id.
     bindE (generate_token_pair E jwt_service (rc_sub claims) new_session_id) (\<lambda>token_pair.
     bindE (nowE E) (\<lambda>now.
     bindE (hashed_refresh_token E settings (jp_refresh_token token_pair)) (\<lambda>refresh_hash.
     bindE (presented_token_matches E settings
              (find_session (rc_session_id claims) (ag_sessions aggregate)) token) (\<lambda>token_matches.
     bindE (on_aggregate E (\<lambda>clk. rotate_session clk (rc_session_id claims) token_matches new_session_id
              refresh_hash (now + days (refresh_token_expiry_days settings))) aggregate) (\<lambda>(rotated, ag).
     returnE (new_session_id, token_pair, rotated, ag)))))))"

definition finish_rotation ::
  "('e) auth_lib_env_scheme \<Rightarrow> 'z auth_world_scheme user_repository \<Rightarrow> refresh_token_claims
   \<Rightarrow> uuid \<times> jwt_pair \<times> (auth_error + new_session) \<times> user_aggregate
   \<Rightarrow> ('z auth_world_scheme, auth_error, refresh_result) eff" where
  "finish_rotation E user_repo claims = (\<lambda>(new_session_id, token_pair, rotated, ag).
       case rotated of
         Inl e \<Rightarrow>
           if e = SessionInvalidated then
             bindE (on_aggregate E invalidate_all_active_sessions ag) (\<lambda>ag.
             bindE (ur_save_aggregate user_repo ag []) (\<lambda>_.
             throwE SessionInvalidated))
           else throwE e
       | Inr new_session \<Rightarrow>
           bindE (ur_save_aggregate user_repo ag [new_session]) (\<lambda>_.
           let events = fst (take_events ag)
           in returnE \<lparr>rr_user_id = rc_sub claims, rr_session_id = new_session_id,
                       rr_access_token = jp_access_token token_pair,
                       rr_refresh_token = jp_refresh_token token_pair,
                       rr_auth_method =
                         (case events of [] \<Rightarrow> Password
                          | e # _ \<Rightarrow> (case event_auth_method e of Some m \<Rightarrow> m | None \<Rightarrow> Password)),
                       rr_events = events\<rparr>))"

definition refresh_save ::
  "('e) auth_lib_env_scheme \<Rightarrow> 'z auth_world_scheme user_repository \<Rightarrow> jwt_service \<Rightarrow> string \<Rightarrow> auth_settings
   \<Rightarrow> refresh_token_claims \<times> user_aggregate \<Rightarrow> ('z auth_world_scheme, auth_error, refresh_result) eff" where
  "refresh_save E user_repo jwt_service token settings = (\<lambda>(claims, aggregate).
     bindE (prepare_rotation E jwt_service token settings claims aggregate) (finish_rotation E user_repo claims))"

definition refresh_token ::
  "('e) auth_lib_env_scheme \<Rightarrow> 'z auth_world_scheme user_repository \<Rightarrow> jwt_service \<Rightarrow> string \<Rightarrow> auth_settings
   \<Rightarrow> ('z auth_world_scheme, auth_error, refresh_result) eff" where
  "refresh_token E user_repo jwt_service token settings =
     bindE (refresh_load E user_repo jwt_service token) (refresh_save E user_repo jwt_service token settings)"

definition logout ::
  "('e) env_scheme \<Rightarrow> 'z world_scheme user_repository \<Rightarrow> uuid \<Rightarrow> uuid \<Rightarrow> ('z world_scheme, auth_error, event list) eff" where
  "logout E user_repo user_id session_id =
     bindE (ur_find_aggregate_by_id user_repo user_id) (\<lambda>found.
     bindE (liftE (ok_or UserNotFound found)) (\<lambda>aggregate.
     bindE (on_aggregate E (\<lambda>clk. invalidate_session clk session_id) aggregate) (\<lambda>(invalidated, ag).
     bindE (liftE invalidated) (\<lambda>_.
     bindE (ur_save_aggregate user_repo ag []) (\<lambda>_.
     returnE (fst (take_events ag)))))))"

definition record_audit_entry ::
  "'z world_scheme user_repository \<Rightarrow> uuid \<Rightarrow> uuid option \<Rightarrow> event_type \<Rightarrow> auth_method
   \<Rightarrow> ('z world_scheme, auth_error, user_action) eff" where
  "record_audit_entry repo user_id session_id event_type auth_method =
     ur_create_user_action repo
       \<lparr>na_user_id = user_id, na_session_id = session_id, na_event_type = event_type, na_auth_method = auth_method\<rparr>"


section \<open>What a saved aggregate does to the stored sessions\<close>

definition loaded :: "session set \<Rightarrow> user_aggregate \<Rightarrow> bool" where
  "loaded ss ag \<longleftrightarrow>
     set (ag_sessions ag) = {s \<in> ss. s_user_id s = u_id (ag_user ag)} \<and>
     distinct (map s_id (ag_sessions ag)) \<and> ag_pending_events ag = []"

text \<open>The sessions with the given ones switched off.\<close>

definition off :: "uuid set \<Rightarrow> session set \<Rightarrow> session set" where
  "off ids ss = (\<lambda>s. if s_id s \<in> ids then invalidate s else s) ` ss"

lemma off_empty [simp]: "off {} ss = ss"
  by (simp add: off_def)

lemma off_disjoint: "ids \<inter> s_id ` ss = {} \<Longrightarrow> off ids ss = ss"
proof -
  assume "ids \<inter> s_id ` ss = {}"
  then have "(if s_id s \<in> ids then invalidate s else s) = s" if "s \<in> ss" for s using that by auto
  then show "off ids ss = ss" by (simp add: off_def)
qed

lemma off_inactive:
  assumes "inj_on s_id ss" and "\<forall>i \<in> ids. \<exists>s \<in> ss. s_id s = i \<and> \<not> s_is_active s"
  shows "off (ids \<union> J) ss = off J ss"
  unfolding off_def
proof (rule image_cong [OF refl])
  fix s
  assume s: "s \<in> ss"
  have "invalidate s = s" if "s_id s \<in> ids"
  proof -
    obtain t where "t \<in> ss" "s_id t = s_id s" "\<not> s_is_active t" using assms(2) \<open>s_id s \<in> ids\<close> by blast
    with assms(1) s show ?thesis by (auto dest: inj_onD intro: invalidate_inactive)
  qed
  then show "(if s_id s \<in> ids \<union> J then invalidate s else s) = (if s_id s \<in> J then invalidate s else s)" by simp
qed

lemma invalidated_ids_iff: "i \<in> set (invalidated_ids ag) \<longleftrightarrow> (\<exists>s \<in> set (ag_sessions ag). s_id s = i \<and> \<not> s_is_active s)"
  by (auto simp: invalidated_ids_def)

lemma saved_to_off:
  assumes "saved_to ag' nss ss ss'" and "inj_on s_id ss" and "loaded ss ag"
    and "set (invalidated_ids ag') = set (invalidated_ids ag) \<union> J" and "J \<subseteq> s_id ` ss"
  shows "ns_id ` set nss \<inter> s_id ` ss = {} \<and>
         (\<exists>ts. length ts = length nss \<and> ss' = set (sessions_of_new ts nss) \<union> off J ss)"
proof -
  let ?I = "set (invalidated_ids ag')"
  obtain ts where ts: "length ts = length nss" and ss': "ss' = saved_sessions ag' (sessions_of_new ts nss) ss"
    and fresh: "ns_id ` set nss \<inter> s_id ` ss = {}"
    using assms(1) unfolding saved_to_def by (elim exE conjE)
  have inactive: "\<forall>i \<in> set (invalidated_ids ag). \<exists>s \<in> ss. s_id s = i \<and> \<not> s_is_active s"
    using assms(3) by (auto simp: invalidated_ids_iff loaded_def)
  have "i \<in> s_id ` ss" if "i \<in> set (invalidated_ids ag)" for i
  proof -
    from bspec [OF inactive that] obtain s where "s \<in> ss" "s_id s = i" by (elim bexE conjE)
    then show ?thesis by (intro image_eqI [of _ _ s]) simp_all
  qed
  then have "set (invalidated_ids ag) \<subseteq> s_id ` ss" by (rule subsetI)
  then have "?I \<subseteq> s_id ` ss" unfolding assms(4) using assms(5) by (rule Un_least)
  from Int_mono [OF this subset_refl, of "ns_id ` set nss"] fresh
  have "?I \<inter> s_id ` set (sessions_of_new ts nss) = {}"
    by (simp only: sessions_of_new_facts(2) [OF ts] Int_commute subset_empty)
  then have new: "off ?I (set (sessions_of_new ts nss)) = set (sessions_of_new ts nss)" by (rule off_disjoint)
  have "ss' = off ?I (set (sessions_of_new ts nss)) \<union> off ?I ss"
    unfolding ss' saved_sessions_def off_def by (simp only: image_Un Un_commute)
  also have "off ?I ss = off J ss"
    unfolding assms(4) by (rule off_inactive [OF assms(2) inactive])
  finally have "ss' = set (sessions_of_new ts nss) \<union> off J ss" by (simp only: new)
  with ts fresh show ?thesis by (intro conjI exI [of _ ts])
qed

lemma inactive_update_first:
  assumes "find_session sid ss = Some s"
  shows "set (map s_id (filter (\<lambda>s. \<not> s_is_active s) (update_first (\<lambda>s. s_id s = sid) invalidate ss)))
          = insert sid (set (map s_id (filter (\<lambda>s. \<not> s_is_active s) ss)))"
  using assms
proof (induction ss)
  case (Cons t ss)
  then show ?case
    by (cases "s_id t = sid"; cases "s_is_active t") (simp_all add: find_session_def insert_commute)
qed (simp add: find_session_def)

lemma invalidated_ids_update_first:
  assumes "find_session sid (ag_sessions ag) = Some s"
  shows "set (invalidated_ids (push_event e (invalidate_first sid ag))) = set (invalidated_ids ag) \<union> {sid}"
  using inactive_update_first [OF assms]
  by (simp only: invalidated_ids_def push_event_simps invalidate_first_simps Un_insert_right Un_empty_right)

lemma invalidated_ids_all:
  "set (invalidated_ids (invalidate_all_active_sessions clk ag)) = s_id ` set (ag_sessions ag)"
proof -
  have "ag_sessions (invalidate_all_active_sessions clk ag) = map invalidate (ag_sessions ag)"
    using invalidate_all_sessions [of clk ag] by simp
  then show ?thesis by (auto simp: invalidated_ids_def)
qed



section \<open>Steps that leave the database alone\<close>

text \<open>What bcrypt documents of the texts it makes: the 60 characters of the modular crypt format.\<close>

definition bcrypt_text :: "('b) bcrypt_lib_scheme \<Rightarrow> bool" where
  "bcrypt_text L \<longleftrightarrow> (\<forall>n password cost hash. bc_hash L n password cost = Inr hash \<longrightarrow> length hash = 60)"

lemma bindE_last:
  assumes "bindE m (\<lambda>_. returnE y) w = (r, w')"
  obtains q where "m w = (q, w')" and "(\<exists>e. r = Inl e) \<longleftrightarrow> (\<exists>e. q = Inl e)" and "\<forall>x. r = Inr x \<longrightarrow> x = y"
proof -
  obtain q w1 where q: "m w = (q, w1)" by fastforce
  show thesis
  proof (cases q)
    case (Inl e)
    with q assms have "w1 = w'" "r = Inl e" by (simp_all add: bindE_def)
    with q Inl show ?thesis by (intro that [of "Inl e"]) simp_all
  next
    case (Inr x)
    with q assms have "w1 = w'" "r = Inr y" by (simp_all add: bindE_def)
    with q Inr show ?thesis by (intro that [of "Inr x"]) simp_all
  qed
qed

lemma read_only_step:
  assumes "bindE m k w = (r, w')" and "read_only m" and "\<not> ((\<exists>e. r = Inl e) \<and> db w' = d)" and "db w = d"
  obtains x w1 where "m w = (Inr x, w1)" and "db w1 = d" and "k x w1 = (r, w')"
proof -
  obtain q w1 where q: "m w = (q, w1)" by fastforce
  then have "db w1 = db w" using assms(2) by (rule read_onlyD [rotated])
  with q assms that show thesis by (cases q) (auto simp: bindE_def)
qed

lemma read_only_run_bounded [keeps, intro]: "read_only (run_bounded E l f)"
  by (simp add: read_only_def run_bounded_def next_tick_def case_prod_beta split: task_fate.split)

lemma read_only_on_aggregate [keeps, intro]: "read_only (on_aggregate E f ag)"
  by (simp add: read_only_def on_aggregate_def next_tick_def)

lemma read_only_generate_token_pair [keeps, intro]: "read_only (generate_token_pair E js uid sid)"
  unfolding generate_token_pair_def by (intro read_only_bindE read_only_simps)

lemma read_only_validate_refresh_token [keeps, intro]: "read_only (validate_refresh_token E js token)"
  unfolding validate_refresh_token_def by (intro read_only_bindE read_only_simps)

lemma read_only_hashed_refresh_token [keeps, intro]: "read_only (hashed_refresh_token E settings token)"
  unfolding hashed_refresh_token_def by (intro read_only_bindE read_only_simps read_only_run_bounded)

lemma read_only_presented_token_matches [keeps, intro]: "read_only (presented_token_matches E settings ses token)"
  unfolding presented_token_matches_def
  by (cases ses) (simp_all add: read_only_bindE read_only_simps read_only_run_bounded)

lemma run_bounded_Inr:
  assumes "run_bounded E l f w = (Inr x, w')"
  shows "x = fst (f (pw w))" and "tick w' = Suc (tick w)"
  using assms
  by (auto simp: run_bounded_def next_tick_def case_prod_beta split: if_splits task_fate.splits)

lemma hashed_refresh_token_Inr:
  assumes "hashed_refresh_token E settings token w = (Inr hash, w')"
  obtains n where "bc_hash (bcrypt E) n token (bcrypt_cost settings) = Inr (hash_as_str hash)" and "hash_as_str hash \<noteq> []"
proof -
  obtain r w1 h where r: "run_bounded E (bcrypt_limiter settings) (hash_call (bcrypt E) token (bcrypt_cost settings)) w = (Inr r, w1)"
    and h: "r = Inr h" "HashedPassword_new h = Inr hash"
    using assms unfolding hashed_refresh_token_def by (auto simp: bindE_eq_Inr simp del: bindE_liftE)
  have "r = bc_hash (bcrypt E) (ps_draws (pw w)) token (bcrypt_cost settings)"
    using run_bounded_Inr(1) [OF r] by (simp add: hash_call_def)
  with h that [of "ps_draws (pw w)"] show thesis by (simp add: HashedPassword_new_iff)
qed

lemma new_session_storable:
  assumes "bcrypt_text L" and "bc_hash L n token cost = Inr (hash_as_str hash)"
  shows "storable (NewSession_new sid uid hash expires_at m)"
proof -
  have "length (hash_as_str hash) = 60" using assms by (simp add: bcrypt_text_def)
  then show ?thesis
    using char_count_le_length [of "hash_as_str hash"] by (auto simp: storable_def NewSession_new_def)
qed



text \<open>Steps that neither write nor report a reused token.\<close>

definition quiet :: "('z world_scheme, auth_error, 'a) eff \<Rightarrow> bool" where
  "quiet m \<longleftrightarrow> read_only m \<and> (\<forall>w. fst (m w) \<noteq> Inl SessionInvalidated)"

lemma quiet_simps [intro]:
  "quiet (returnE x)"
  "quiet (nowE E)"
  "quiet (now_v7E E)"
  "quiet (on_aggregate E f ag)"
  "r \<noteq> Inl SessionInvalidated \<Longrightarrow> quiet (liftE r)"
  by (auto simp: quiet_def returnE_def nowE_def now_v7E_def on_aggregate_def liftE_def)

lemma quiet_run_bounded [intro]: "quiet (run_bounded E l f)"
  by (auto simp: quiet_def run_bounded_def case_prod_beta split: task_fate.split)

lemma quiet_bindE [intro]:
  assumes "quiet m" and "\<And>x. quiet (k x)"
  shows "quiet (bindE m k)"
proof -
  have "fst (bindE m k w) \<noteq> Inl SessionInvalidated" for w
    using assms unfolding quiet_def bindE_def by (auto split: prod.split sum.split) (metis fst_conv)+
  with assms show ?thesis by (auto simp: quiet_def)
qed

lemma quiet_tokens [intro]:
  "quiet (generate_token_pair E js uid sid)"
  "quiet (validate_refresh_token E js token)"
  unfolding generate_token_pair_def validate_refresh_token_def mint_def
  by (intro quiet_bindE quiet_simps; simp)+

lemma quiet_hashed_refresh_token [intro]: "quiet (hashed_refresh_token E settings token)"
  unfolding hashed_refresh_token_def
  by (intro quiet_bindE quiet_simps quiet_run_bounded) (simp_all add: map_err_eq_Inl)

lemma quiet_presented_token_matches [intro]: "quiet (presented_token_matches E settings ses token)"
  unfolding presented_token_matches_def
  by (cases ses) (simp_all add: quiet_bindE quiet_simps quiet_run_bounded)

lemma quiet_step:
  assumes "bindE m k w = (r, w')" and "quiet m"
    and "\<not> (\<exists>e. r = Inl e \<and> e \<noteq> SessionInvalidated \<and> db w' = d)" and "db w = d"
  obtains x w1 where "m w = (Inr x, w1)" and "db w1 = d" and "k x w1 = (r, w')"
proof -
  obtain q w1 where q: "m w = (q, w1)" by fastforce
  then have "db w1 = db w" "q \<noteq> Inl SessionInvalidated"
    using assms(2) unfolding quiet_def by (metis read_onlyD, metis fst_conv)
  with q assms that show thesis by (cases q) (auto simp: bindE_def)
qed


section \<open>The use cases over any repository that keeps its contract\<close>

text \<open>The session a login opened, and its result.\<close>

definition opened :: "('b) bcrypt_lib_scheme \<Rightarrow> auth_settings \<Rightarrow> auth_method \<Rightarrow> user \<Rightarrow> session \<Rightarrow> bool" where
  "opened L settings m u ses \<longleftrightarrow>
     s_user_id ses = u_id u \<and> s_is_active ses \<and> s_auth_method ses = m \<and>
     (\<exists>n token. bc_hash L n token (bcrypt_cost settings) = Inr (hash_as_str (s_refresh_token_hash ses)))"

definition reported :: "('b) bcrypt_lib_scheme \<Rightarrow> auth_settings \<Rightarrow> auth_method \<Rightarrow> user \<Rightarrow> session \<Rightarrow> login_result \<Rightarrow> bool" where
  "reported L settings m u ses lr \<longleftrightarrow>
     lr_user lr = u \<and> lr_session_id lr = s_id ses \<and>
     (\<exists>n. bc_hash L n (lr_refresh_token lr) (bcrypt_cost settings) = Inr (hash_as_str (s_refresh_token_hash ses))) \<and>
     (\<exists>t. lr_events lr = [UserLoggedIn (UserLoggedIn_new t (u_id u) (s_id ses) m)])"

lemma read_only_prepare_session [keeps, intro]: "read_only (prepare_session E js settings m ag)"
  unfolding prepare_session_def
  by (auto intro!: read_only_bindE read_only_simps read_only_generate_token_pair read_only_hashed_refresh_token
        read_only_on_aggregate split: prod.split)

lemma quiet_prepare_rotation [intro]: "quiet (prepare_rotation E js token settings claims ag)"
  unfolding prepare_rotation_def
  by (auto intro!: quiet_bindE quiet_simps quiet_tokens quiet_hashed_refresh_token quiet_presented_token_matches
        split: prod.split)

lemma prepare_session_Inr:
  fixes w :: "'z auth_world_scheme"
  assumes "prepare_session E js settings m ag w = (Inr (sid, pair, ns, ag1), w')"
  obtains clk n hash t where
    "bc_hash (bcrypt E) n (jp_refresh_token pair) (bcrypt_cost settings) = Inr (hash_as_str hash)"
    and "add_session clk sid hash (t + days (refresh_token_expiry_days settings)) m ag = (Inr ns, ag1)"
proof -
  obtain w1 w2 :: "'z auth_world_scheme" and hash now where h: "hashed_refresh_token E settings (jp_refresh_token pair) w1 = (Inr hash, w2)"
    and a: "fst (add_session (utc E (tick w2)) sid hash (now + days (refresh_token_expiry_days settings)) m ag) = Inr ns"
      "snd (add_session (utc E (tick w2)) sid hash (now + days (refresh_token_expiry_days settings)) m ag) = ag1"
    using assms unfolding prepare_session_def
    by (auto simp: bindE_eq_Inr on_aggregate_def case_prod_beta simp del: bindE_liftE)
  obtain n where "bc_hash (bcrypt E) n (jp_refresh_token pair) (bcrypt_cost settings) = Inr (hash_as_str hash)"
    by (rule hashed_refresh_token_Inr [OF h])
  moreover have "add_session (utc E (tick w2)) sid hash (now + days (refresh_token_expiry_days settings)) m ag = (Inr ns, ag1)"
    by (rule prod_eqI) (simp_all add: a)
  ultimately show thesis by (rule that)
qed

lemma prepare_rotation_Inr:
  fixes w :: "'z auth_world_scheme"
  assumes "prepare_rotation E js token settings claims ag w = (Inr (nid, pair, rotated, ag1), w')"
  obtains clk n hash t matches where
    "bc_hash (bcrypt E) n (jp_refresh_token pair) (bcrypt_cost settings) = Inr (hash_as_str hash)"
    and "rotate_session clk (rc_session_id claims) matches nid hash (t + days (refresh_token_expiry_days settings)) ag = (rotated, ag1)"
    and "matches \<longrightarrow> (\<exists>s. find_session (rc_session_id claims) (ag_sessions ag) = Some s \<and>
                       bc_verify (bcrypt E) token (hash_as_str (s_refresh_token_hash s)) = Inr True)"
proof -
  let ?found = "find_session (rc_session_id claims) (ag_sessions ag)"
  obtain w1 w2 w3 :: "'z auth_world_scheme" and hash now matches where
      h: "hashed_refresh_token E settings (jp_refresh_token pair) w1 = (Inr hash, w2)"
    and m: "presented_token_matches E settings ?found token w2 = (Inr matches, w3)"
    and a: "(rotated, ag1) = rotate_session (utc E (tick w3)) (rc_session_id claims) matches nid hash
                (now + days (refresh_token_expiry_days settings)) ag"
    using assms unfolding prepare_rotation_def
    by (auto simp: bindE_eq_Inr on_aggregate_def case_prod_beta)
  obtain n where "bc_hash (bcrypt E) n (jp_refresh_token pair) (bcrypt_cost settings) = Inr (hash_as_str hash)"
    by (rule hashed_refresh_token_Inr [OF h])
  moreover note a [symmetric]
  moreover have "\<exists>s. ?found = Some s \<and> bc_verify (bcrypt E) token (hash_as_str (s_refresh_token_hash s)) = Inr True" if matches
  proof (cases ?found)
    case None
    with m that show ?thesis by (simp add: presented_token_matches_def)
  next
    case (Some s)
    with m obtain v w4 where v: "run_bounded E (bcrypt_limiter settings)
        (verify_call (bcrypt E) token (hash_as_str (s_refresh_token_hash s))) w2 = (Inr v, w4)"
      and "matches = (case v of Inr m \<Rightarrow> m | Inl e \<Rightarrow> False)"
      by (auto simp: presented_token_matches_def bindE_eq_Inr)
    with run_bounded_Inr(1) [OF v] that Some show ?thesis by (auto split: sum.splits)
  qed
  ultimately show thesis using that by blast
qed

lemma rotate_session_outcomes:
  assumes "rotate_session clk sid matches nid hash expires_at ag = (rotated, ag1)"
  shows "rotated = Inl SessionInvalidated \<Longrightarrow>
           ag1 = ag \<and> (\<exists>s. find_session sid (ag_sessions ag) = Some s \<and> \<not> s_is_active s)"
    and "rotated = Inr ns \<Longrightarrow> matches \<and>
           (\<exists>s e. find_session sid (ag_sessions ag) = Some s \<and> s_is_active s \<and>
              ns = NewSession_new nid (u_id (ag_user ag)) hash expires_at (s_auth_method s) \<and>
              ag1 = push_event e (invalidate_first sid ag) \<and>
              (\<exists>t. e = SessionRefreshed (SessionRefreshed_new t (u_id (ag_user ag)) nid (s_auth_method s))))"
  using assms by (auto simp: rotate_session_def split: option.splits if_splits)

text \<open>The account a Google login ends up in: the one with the verified address, or a new one
  that holds it.\<close>

definition account :: "google_user_info \<Rightarrow> user \<Rightarrow> user set \<Rightarrow> user set \<Rightarrow> bool" where
  "account info u us us' \<longleftrightarrow>
     u \<in> us \<and> email_as_str (u_email u) = gi_email info \<and> us' = us \<or>
     u_id u \<notin> u_id ` us \<and> created_user (new_google (Email (gi_email info)) (gi_name info)) u \<and> us' = insert u us"

definition google_reported ::
  "('b) bcrypt_lib_scheme \<Rightarrow> auth_settings \<Rightarrow> user \<Rightarrow> session \<Rightarrow> bool \<Rightarrow> google_login_result \<Rightarrow> bool" where
  "google_reported L settings u ses is_new lr \<longleftrightarrow>
     lr_user lr = u \<and> lr_session_id lr = s_id ses \<and> lr_is_new_user lr = is_new \<and>
     (\<exists>n. bc_hash L n (lr_refresh_token lr) (bcrypt_cost settings) = Inr (hash_as_str (s_refresh_token_hash ses))) \<and>
     (\<exists>t t'. lr_events lr = (if is_new then [UserCreated (UserCreated_new t' (u_id u) Google)] else [])
                             @ [UserLoggedIn (UserLoggedIn_new t (u_id u) (s_id ses) GoogleOAuth)])"

lemma google_events_Inr:
  "\<exists>g w'. google_events E is_new lr w = (Inr g, w') \<and> db w' = db w \<and>
     (reported L settings GoogleOAuth u ses lr \<longrightarrow> google_reported L settings u ses is_new g)"
  by (auto simp: google_events_def reported_def google_reported_def bindE_def nowE_def returnE_def next_tick_def
      google_login_result.defs login_result.defs)

lemma google_events_step:
  assumes "bindE m (google_events E is_new) w = (r, w')" and "m w = (p, w1)"
  shows "db w' = db w1 \<and> ((\<exists>e. r = Inl e) \<longleftrightarrow> (\<exists>e. p = Inl e)) \<and>
         (\<forall>lr ses. r = Inr lr \<longrightarrow> (\<forall>lr. p = Inr lr \<longrightarrow> reported L settings GoogleOAuth u ses lr) \<longrightarrow>
            google_reported L settings u ses is_new lr)"
proof (cases p)
  case (Inl e)
  with assms have "r = Inl e" "w' = w1" by (simp_all add: bindE_def)
  with Inl show ?thesis by simp
next
  case (Inr lr)
  with assms have "google_events E is_new lr w1 = (r, w')" by (simp add: bindE_def)
  with Inr google_events_Inr [of E is_new lr w1 L settings u] show ?thesis by fastforce
qed

text \<open>The adapters report their own failures as internal errors.\<close>

definition internal_errors :: "('w, auth_error, 'a) eff \<Rightarrow> bool" where
  "internal_errors m \<longleftrightarrow> (\<forall>w e. fst (m w) = Inl e \<longrightarrow> (\<exists>t. e = InternalError t))"

text \<open>What a refresh does: it fails and changes nothing, or it exchanges a live session whose
  token was presented for a new one, or it met a dead session and switches all sessions of
  the account off.\<close>

definition rotated_to ::
  "('b) bcrypt_lib_scheme \<Rightarrow> auth_settings \<Rightarrow> string \<Rightarrow> refresh_token_claims \<Rightarrow> session set \<Rightarrow> session set \<Rightarrow> auth_error + refresh_result \<Rightarrow> bool" where
  "rotated_to L settings token claims ss ss' r \<longleftrightarrow>
     (\<exists>old new. old \<in> ss \<and> s_id old = rc_session_id claims \<and> s_user_id old = rc_sub claims \<and> s_is_active old \<and>
        bc_verify L token (hash_as_str (s_refresh_token_hash old)) = Inr True \<and>
        s_id new \<notin> s_id ` ss \<and> s_user_id new = rc_sub claims \<and> s_is_active new \<and>
        s_auth_method new = s_auth_method old \<and>
        ss' = insert new (off {rc_session_id claims} ss) \<and>
        (\<forall>rr. r = Inr rr \<longrightarrow> rr_user_id rr = rc_sub claims \<and> rr_session_id rr = s_id new \<and>
           rr_auth_method rr = s_auth_method old \<and>
           (\<exists>n. bc_hash L n (rr_refresh_token rr) (bcrypt_cost settings) = Inr (hash_as_str (s_refresh_token_hash new))) \<and>
           (\<exists>t. rr_events rr = [SessionRefreshed (SessionRefreshed_new t (rc_sub claims) (s_id new) (s_auth_method old))])))"

definition all_revoked ::
  "refresh_token_claims \<Rightarrow> session set \<Rightarrow> session set \<Rightarrow> auth_error + refresh_result \<Rightarrow> bool" where
  "all_revoked claims ss ss' r \<longleftrightarrow>
     (\<exists>e. r = Inl e) \<and>
     (\<exists>old \<in> ss. s_id old = rc_session_id claims \<and> s_user_id old = rc_sub claims \<and> \<not> s_is_active old) \<and>
     ss' = off {s_id s | s. s \<in> ss \<and> s_user_id s = rc_sub claims} ss"

locale auth_store = user_store R accepts users_in sessions_in
  for R :: "'z auth_world_scheme user_repository"
    and accepts :: "database \<Rightarrow> bool"
    and users_in :: "database \<Rightarrow> user set"
    and sessions_in :: "database \<Rightarrow> session set" +
  assumes find_errors: "internal_errors (ur_find_aggregate_by_id R uid)"
    and save_errors: "internal_errors (ur_save_aggregate R ag nss)"
begin

text \<open>The login steps open one new session of the account, or fail and change nothing; an
  error after the session was stored is a lost acknowledgement.\<close>

lemma open_session_effect:
  assumes "open_session E R js settings m ag w = (r, w')" and "accepts (db w)" and "bcrypt_text (bcrypt E)"
    and "loaded (sessions_in (db w)) ag" and no: "\<not> ((\<exists>e. r = Inl e) \<and> db w' = db w)"
  shows "\<exists>ses. accepts (db w') \<and> users_in (db w') = users_in (db w) \<and>
            sessions_in (db w') = insert ses (sessions_in (db w)) \<and> s_id ses \<notin> s_id ` sessions_in (db w) \<and>
            opened (bcrypt E) settings m (ag_user ag) ses \<and>
            (\<forall>lr. r = Inr lr \<longrightarrow> reported (bcrypt E) settings m (ag_user ag) ses lr)"
proof -
  obtain sid pair ns ag1 w1 where p: "prepare_session E js settings m ag w = (Inr (sid, pair, ns, ag1), w1)"
    and w1: "db w1 = db w"
    and k: "bindE (ur_save_aggregate R ag1 [ns]) (\<lambda>_. returnE \<lparr>lr_user = ag_user ag1, lr_session_id = sid,
              lr_access_token = jp_access_token pair, lr_refresh_token = jp_refresh_token pair,
              lr_events = fst (take_events ag1)\<rparr>) w1 = (r, w')"
    by (rule read_only_step [OF assms(1) [unfolded open_session_def] read_only_prepare_session no refl])
       (auto split: prod.splits)
  obtain clk n hash t where hash: "bc_hash (bcrypt E) n (jp_refresh_token pair) (bcrypt_cost settings) = Inr (hash_as_str hash)"
    and add: "add_session clk sid hash (t + days (refresh_token_expiry_days settings)) m ag = (Inr ns, ag1)"
    by (rule prepare_session_Inr [OF p])
  note ns = add_session_Inr(2,3) [OF add]
  have st: "\<forall>ns' \<in> set [ns]. storable ns'" using new_session_storable [OF assms(3) hash] ns(1) by simp
  obtain q w2 where q: "ur_save_aggregate R ag1 [ns] w1 = (q, w2)" by fastforce
  have w2: "w2 = w'" and r: "r = (case q of Inl e \<Rightarrow> Inl e | Inr _ \<Rightarrow> Inr \<lparr>lr_user = ag_user ag1, lr_session_id = sid,
              lr_access_token = jp_access_token pair, lr_refresh_token = jp_refresh_token pair,
              lr_events = fst (take_events ag1)\<rparr>)"
    using k q by (auto simp: bindE_def split: sum.splits)
  have saved: "accepts (db w')" "users_in (db w') = users_in (db w)" "saved_to ag1 [ns] (sessions_in (db w)) (sessions_in (db w'))"
    using save_whole_or_nothing [OF _ st q] assms(2) no w1 w2 r by (auto split: sum.splits)
  have "set (invalidated_ids ag1) = set (invalidated_ids ag) \<union> {}" by (simp add: invalidated_ids_def ns(2))
  from saved_to_off [OF saved(3) unique_sessions [OF assms(2)] assms(4) this]
  obtain t' where ss: "sessions_in (db w') = insert (session_of_new t' ns) (sessions_in (db w))"
    and fresh: "ns_id ns \<notin> s_id ` sessions_in (db w)"
    by (auto simp: length_Suc_conv)
  have ev: "ag_user ag1 = ag_user ag" "fst (take_events ag1) = [UserLoggedIn (UserLoggedIn_new (clk (length (ag_sessions ag))) (u_id (ag_user ag)) sid m)]"
    using add assms(4) by (auto simp: add_session_def take_events_def loaded_def split: if_splits)
  show ?thesis
    using saved ss fresh ns(1) hash ev
    by (intro exI [of _ "session_of_new t' ns"])
       (auto simp: r opened_def reported_def session_of_new_def NewSession_new_def split: sum.splits)
qed

lemma found_loaded:
  assumes "accepts (db w)"
  shows "ur_find_aggregate_by_id R uid w = (Inr (Some ag), w') \<Longrightarrow> loaded (sessions_in (db w)) ag \<and> u_id (ag_user ag) = uid \<and> ag_user ag \<in> users_in (db w)"
    and "ur_find_aggregate_by_username R name w = (Inr (Some ag), w') \<Longrightarrow>
           loaded (sessions_in (db w)) ag \<and> u_username (ag_user ag) = Some name \<and> ag_user ag \<in> users_in (db w)"
    and "ur_find_aggregate_by_email R email w = (Inr (Some ag), w') \<Longrightarrow>
           loaded (sessions_in (db w)) ag \<and> email_as_str (u_email (ag_user ag)) = email \<and> ag_user ag \<in> users_in (db w)"
  using by_id [OF assms, of uid ag w'] by_username [OF assms, of name ag w'] by_email [OF assms, of email ag w']
  unfolding loaded_def by (blast, simp_all)

lemma finders_are_read_only:
  "read_only (ur_find_aggregate_by_id R uid)"
  "read_only (ur_find_aggregate_by_username R name)"
  "read_only (ur_find_aggregate_by_email R email)"
  by (simp_all add: read_only_def finders_read_only)

lemma login_with_password_effect:
  assumes "login_with_password E R js settings username password w = (r, w')" and "accepts (db w)"
    and "bcrypt_text (bcrypt E)" and no: "\<not> ((\<exists>e. r = Inl e) \<and> db w' = db w)"
  shows "\<exists>u hash ses. u \<in> users_in (db w) \<and> u_username u = Some username \<and> u_password_hash u = Some hash \<and>
            bc_verify (bcrypt E) password (hash_as_str hash) = Inr True \<and>
            accepts (db w') \<and> users_in (db w') = users_in (db w) \<and>
            sessions_in (db w') = insert ses (sessions_in (db w)) \<and> s_id ses \<notin> s_id ` sessions_in (db w) \<and>
            opened (bcrypt E) settings Password u ses \<and>
            (\<forall>lr. r = Inr lr \<longrightarrow> reported (bcrypt E) settings Password u ses lr)"
proof -
  obtain found w1 where f: "ur_find_aggregate_by_username R username w = (Inr found, w1)" and w1: "db w1 = db w"
    and k1: "bindE (run_bounded E (bcrypt_limiter settings)
              (verify_password_timing_safe (bcrypt E) (map_option ag_user found) password (bcrypt_cost settings)))
       (\<lambda>password_ok. if \<not> password_ok then throwE InvalidCredentials
          else bindE (liftE (ok_or InvalidCredentials found)) (create_session_tokens E R js settings)) w1 = (r, w')"
    by (rule read_only_step [OF assms(1) [unfolded login_with_password_def] finders_are_read_only(2) no refl])
  obtain valid w2 where v: "run_bounded E (bcrypt_limiter settings)
              (verify_password_timing_safe (bcrypt E) (map_option ag_user found) password (bcrypt_cost settings)) w1 = (Inr valid, w2)"
    and w2: "db w2 = db w"
    and k2: "(if \<not> valid then throwE InvalidCredentials
          else bindE (liftE (ok_or InvalidCredentials found)) (create_session_tokens E R js settings)) w2 = (r, w')"
    by (rule read_only_step [OF k1 read_only_run_bounded no w1])
  have "valid" using k2 w2 no by (cases valid) auto
  then obtain ag hash where ag: "found = Some ag" "u_password_hash (ag_user ag) = Some hash"
      "bc_verify (bcrypt E) password (hash_as_str hash) = Inr True"
    using run_bounded_Inr(1) [OF v] by (auto simp: password_verdict)
  have k3: "open_session E R js settings Password ag w2 = (r, w')"
    using k2 ag(1) \<open>valid\<close> by (simp add: create_session_tokens_def)
  have ld: "loaded (sessions_in (db w)) ag" "u_username (ag_user ag) = Some username" "ag_user ag \<in> users_in (db w)"
    using found_loaded(2) [OF assms(2)] f ag(1) by blast+
  have "\<exists>ses. accepts (db w') \<and> users_in (db w') = users_in (db w2) \<and>
            sessions_in (db w') = insert ses (sessions_in (db w2)) \<and> s_id ses \<notin> s_id ` sessions_in (db w2) \<and>
            opened (bcrypt E) settings Password (ag_user ag) ses \<and>
            (\<forall>lr. r = Inr lr \<longrightarrow> reported (bcrypt E) settings Password (ag_user ag) ses lr)"
    by (rule open_session_effect [OF k3]) (use assms(2,3) ld no in \<open>simp_all add: w2\<close>)
  then show ?thesis using ld ag(2,3) unfolding w2 by blast
qed

lemma save_quietly:
  "fst (ur_save_aggregate R ag nss w) \<noteq> Inl SessionInvalidated"
  using save_errors [of ag nss] unfolding internal_errors_def by fastforce

lemma refresh_load_quiet: "quiet (refresh_load E R js token)"
proof -
  have "quiet (ur_find_aggregate_by_id R uid)" for uid
    using find_errors [of uid] finders_are_read_only(1) [of uid] unfolding internal_errors_def quiet_def by fastforce
  then show ?thesis
    unfolding refresh_load_def by (intro quiet_bindE quiet_simps quiet_tokens) simp_all
qed

lemma refresh_load_Inr:
  assumes "refresh_load E R js token w = (Inr (claims, ag), w')" and "accepts (db w)"
  obtains w1 where "validate_refresh_token E js token w = (Inr claims, w1)"
    and "loaded (sessions_in (db w)) ag" and "u_id (ag_user ag) = rc_sub claims" and "ag_user ag \<in> users_in (db w)"
proof -
  obtain w1 w2 where v: "validate_refresh_token E js token w = (Inr claims, w1)"
    and f: "ur_find_aggregate_by_id R (rc_sub claims) w1 = (Inr (Some ag), w2)"
    using assms(1) unfolding refresh_load_def by (auto simp: bindE_eq_Inr simp del: bindE_liftE)
  have "db w1 = db w" using v quiet_tokens(2) read_onlyD unfolding quiet_def by blast
  with found_loaded(1) [of w1, OF _ f] assms(2) v that show thesis by simp
qed

lemma saved:
  assumes "ur_save_aggregate R ag nss w = (q, w')" and "accepts (db w)" and "\<forall>ns \<in> set nss. storable ns"
    and "\<not> ((\<exists>e. q = Inl e) \<and> db w' = db w)"
  shows "accepts (db w')" and "users_in (db w') = users_in (db w)" and "saved_to ag nss (sessions_in (db w)) (sessions_in (db w'))"
  using save_whole_or_nothing [OF assms(2,3,1)] assms(4) by auto

lemma finish_reuse:
  assumes "finish_rotation E R claims (nid, pair, Inl SessionInvalidated, ag) w = (r, w')" and "accepts (db w)"
    and "loaded (sessions_in (db w)) ag" and "u_id (ag_user ag) = rc_sub claims"
    and "find_session (rc_session_id claims) (ag_sessions ag) = Some old" and "\<not> s_is_active old"
    and no: "\<not> (\<exists>e. r = Inl e \<and> e \<noteq> SessionInvalidated \<and> db w' = db w)"
  shows "accepts (db w') \<and> users_in (db w') = users_in (db w) \<and>
         all_revoked claims (sessions_in (db w)) (sessions_in (db w')) r"
proof -
  let ?ag = "invalidate_all_active_sessions (utc E (tick w)) ag" and ?w = "next_tick w"
  obtain q w1 where q: "ur_save_aggregate R ?ag [] ?w = (q, w1)" by fastforce
  have r: "r = (case q of Inl e \<Rightarrow> Inl e | Inr _ \<Rightarrow> Inl SessionInvalidated)" and w1: "w1 = w'"
    using assms(1) q by (auto simp: finish_rotation_def bindE_def on_aggregate_def throwE_def split: sum.splits)
  have dbw: "db ?w = db w" by (simp add: next_tick_def)
  have "\<not> ((\<exists>e. q = Inl e) \<and> db w1 = db ?w)"
    using no r save_quietly [of ?ag "[]" ?w] q by (auto simp: w1 dbw)
  note sv = saved [OF q _ _ this, unfolded dbw w1, simplified, OF assms(2)]
  let ?J = "{s_id s | s. s \<in> sessions_in (db w) \<and> s_user_id s = rc_sub claims}"
  have J: "s_id ` set (ag_sessions ag) = ?J"
    using assms(3,4) unfolding loaded_def by auto
  have "set (invalidated_ids ?ag) = set (invalidated_ids ag) \<union> ?J"
    unfolding invalidated_ids_all J [symmetric] by (auto simp: invalidated_ids_def)
  moreover have "?J \<subseteq> s_id ` sessions_in (db w)" by auto
  ultimately have "sessions_in (db w') = off ?J (sessions_in (db w))"
    using saved_to_off [OF sv(3) unique_sessions [OF assms(2)] assms(3)] by auto
  moreover have "old \<in> sessions_in (db w)" "s_user_id old = rc_sub claims" "s_id old = rc_session_id claims"
    using find_session_SomeD [OF assms(5)] assms(3,4) by (auto simp: loaded_def)
  ultimately show ?thesis using sv(1,2) assms(6) r by (auto simp: all_revoked_def split: sum.splits)
qed

lemma finish_rotated:
  assumes "finish_rotation E R claims (nid, pair, Inr ns, ag1) w = (r, w')" and "accepts (db w)"
    and "loaded (sessions_in (db w)) ag" and "u_id (ag_user ag) = rc_sub claims" and "storable ns"
    and old: "find_session (rc_session_id claims) (ag_sessions ag) = Some old" "s_is_active old"
    and ag1: "ag1 = push_event e (invalidate_first (rc_session_id claims) ag)"
      "e = SessionRefreshed (SessionRefreshed_new t (u_id (ag_user ag)) nid (s_auth_method old))"
    and ns: "ns = NewSession_new nid (u_id (ag_user ag)) hash expires_at (s_auth_method old)"
    and hash: "bc_hash (bcrypt E) n (jp_refresh_token pair) (bcrypt_cost settings) = Inr (hash_as_str hash)"
    and token: "bc_verify (bcrypt E) token (hash_as_str (s_refresh_token_hash old)) = Inr True"
    and no: "\<not> ((\<exists>e. r = Inl e) \<and> db w' = db w)"
  shows "accepts (db w') \<and> users_in (db w') = users_in (db w) \<and>
         rotated_to (bcrypt E) settings token claims (sessions_in (db w)) (sessions_in (db w')) r"
proof -
  obtain q where q: "ur_save_aggregate R ag1 [ns] w = (q, w')"
    and r: "(\<exists>e. r = Inl e) \<longleftrightarrow> (\<exists>e. q = Inl e)"
      "\<forall>rr. r = Inr rr \<longrightarrow> rr_user_id rr = rc_sub claims \<and> rr_session_id rr = nid \<and>
         rr_auth_method rr = s_auth_method old \<and> rr_refresh_token rr = jp_refresh_token pair \<and> rr_events rr = [e]"
    using assms(1,3) ag1
    by (auto simp: finish_rotation_def bindE_def take_events_def loaded_def SessionRefreshed_new_def Let_def
        split: prod.splits sum.splits)
  note sv = saved [OF q assms(2)]
  have sv: "accepts (db w')" "users_in (db w') = users_in (db w)" "saved_to ag1 [ns] (sessions_in (db w)) (sessions_in (db w'))"
    using sv assms(5) no r(1) by auto
  have o: "old \<in> sessions_in (db w)" "s_user_id old = rc_sub claims" "s_id old = rc_session_id claims"
    using find_session_SomeD [OF old(1)] assms(3,4) by (auto simp: loaded_def)
  have ids: "set (invalidated_ids ag1) = set (invalidated_ids ag) \<union> {rc_session_id claims}"
    unfolding ag1(1) by (rule invalidated_ids_update_first [OF old(1)])
  have sub: "{rc_session_id claims} \<subseteq> s_id ` sessions_in (db w)" using imageI [OF o(1), of s_id] o(3) by simp
  from saved_to_off [OF sv(3) unique_sessions [OF assms(2)] assms(3) ids sub]
  obtain t' where ss: "sessions_in (db w') = insert (session_of_new t' ns) (off {rc_session_id claims} (sessions_in (db w)))"
    and fresh: "ns_id ns \<notin> s_id ` sessions_in (db w)"
    by (auto simp: length_Suc_conv)
  have "rotated_to (bcrypt E) settings token claims (sessions_in (db w)) (sessions_in (db w')) r"
    unfolding rotated_to_def
    by (rule exI [of _ old], rule exI [of _ "session_of_new t' ns"])
       (use o old(2) token ss fresh hash r(2) ag1(2) assms(4) in \<open>auto simp: ns session_of_new_def NewSession_new_def\<close>)
  with sv(1,2) show ?thesis by simp
qed

lemma refresh_save_effect:
  assumes "refresh_save E R js token settings (claims, ag) w = (r, w')" and "accepts (db w)"
    and "bcrypt_text (bcrypt E)" and "loaded (sessions_in (db w)) ag" and "u_id (ag_user ag) = rc_sub claims"
    and no: "\<not> (\<exists>e. r = Inl e \<and> e \<noteq> SessionInvalidated \<and> db w' = db w)"
  shows "accepts (db w') \<and> users_in (db w') = users_in (db w) \<and>
         (rotated_to (bcrypt E) settings token claims (sessions_in (db w)) (sessions_in (db w')) r \<or>
          all_revoked claims (sessions_in (db w)) (sessions_in (db w')) r)"
proof -
  obtain x w1 where x: "prepare_rotation E js token settings claims ag w = (Inr x, w1)"
    and w1: "db w1 = db w" and k: "finish_rotation E R claims x w1 = (r, w')"
    by (rule quiet_step [OF assms(1) [unfolded refresh_save_def prod.case] quiet_prepare_rotation no refl])
  obtain nid pair rotated ag1 where x': "x = (nid, pair, rotated, ag1)" by (metis prod_cases4)
  obtain clk n hash t matches where hash: "bc_hash (bcrypt E) n (jp_refresh_token pair) (bcrypt_cost settings) = Inr (hash_as_str hash)"
    and rot: "rotate_session clk (rc_session_id claims) matches nid hash (t + days (refresh_token_expiry_days settings)) ag = (rotated, ag1)"
    and m: "matches \<longrightarrow> (\<exists>s. find_session (rc_session_id claims) (ag_sessions ag) = Some s \<and>
                       bc_verify (bcrypt E) token (hash_as_str (s_refresh_token_hash s)) = Inr True)"
    by (rule prepare_rotation_Inr [OF x [unfolded x']])
  note out = rotate_session_outcomes [OF rot]
  note ld = assms(2,4,5) [folded w1] and no1 = no [folded w1]
  show ?thesis
  proof (cases rotated)
    case (Inl e)
    with k no w1 have rot': "rotated = Inl SessionInvalidated"
      by (auto simp: finish_rotation_def x' split: if_splits)
    obtain old where "ag1 = ag" "find_session (rc_session_id claims) (ag_sessions ag) = Some old" "\<not> s_is_active old"
      using out(1) [OF rot'] by (elim exE conjE)
    with finish_reuse [of E claims nid pair ag w1 r w' old] k ld no1 rot' x' w1 show ?thesis by simp
  next
    case (Inr ns)
    obtain old e t' where o: "matches" "find_session (rc_session_id claims) (ag_sessions ag) = Some old" "s_is_active old"
        "ns = NewSession_new nid (u_id (ag_user ag)) hash (t + days (refresh_token_expiry_days settings)) (s_auth_method old)"
        "ag1 = push_event e (invalidate_first (rc_session_id claims) ag)"
        "e = SessionRefreshed (SessionRefreshed_new t' (u_id (ag_user ag)) nid (s_auth_method old))"
      using out(2) [OF Inr] by (elim exE conjE)
    have st: "storable ns" unfolding o(4) by (rule new_session_storable [OF assms(3) hash])
    have tk: "bc_verify (bcrypt E) token (hash_as_str (s_refresh_token_hash old)) = Inr True" using m o(1,2) by simp
    have no2: "\<not> ((\<exists>e. r = Inl e) \<and> db w' = db w1)"
      using no1 k x' Inr save_quietly [of ag1 "[ns]" w1]
      by (auto simp: finish_rotation_def bindE_def Let_def split: prod.splits sum.splits)
    show ?thesis
      using finish_rotated [OF k [unfolded x' Inr] ld st o(2,3,5,6,4) hash tk no2] w1 by simp
  qed
qed

lemma refresh_token_effect:
  assumes "refresh_token E R js token settings w = (r, w')" and "accepts (db w)" and "bcrypt_text (bcrypt E)"
    and no: "\<not> (\<exists>e. r = Inl e \<and> e \<noteq> SessionInvalidated \<and> db w' = db w)"
  shows "\<exists>claims w1. validate_refresh_token E js token w = (Inr claims, w1) \<and>
         accepts (db w') \<and> users_in (db w') = users_in (db w) \<and>
         (rotated_to (bcrypt E) settings token claims (sessions_in (db w)) (sessions_in (db w')) r \<or>
          all_revoked claims (sessions_in (db w)) (sessions_in (db w')) r)"
proof -
  obtain x w1 where x: "refresh_load E R js token w = (Inr x, w1)" and w1: "db w1 = db w"
    and k: "refresh_save E R js token settings x w1 = (r, w')"
    by (rule quiet_step [OF assms(1) [unfolded refresh_token_def] refresh_load_quiet no refl])
  obtain claims ag where x': "x = (claims, ag)" by fastforce
  obtain w2 where v: "validate_refresh_token E js token w = (Inr claims, w2)"
    and ld: "loaded (sessions_in (db w)) ag" "u_id (ag_user ag) = rc_sub claims"
    by (rule refresh_load_Inr [OF x [unfolded x'] assms(2)])
  show ?thesis
    using refresh_save_effect [OF k [unfolded x'], unfolded w1, OF assms(2,3) ld no] v by blast
qed

lemma logout_effect:
  assumes "logout E R user_id sid w = (r, w')" and "accepts (db w)" and no: "\<not> ((\<exists>e. r = Inl e) \<and> db w' = db w)"
  shows "\<exists>ses \<in> sessions_in (db w). s_id ses = sid \<and> s_user_id ses = user_id \<and> s_is_active ses \<and>
           accepts (db w') \<and> users_in (db w') = users_in (db w) \<and>
           sessions_in (db w') = off {sid} (sessions_in (db w)) \<and>
           (\<forall>es. r = Inr es \<longrightarrow> (\<exists>t. es = [UserLoggedOut (UserLoggedOut_new t user_id sid (s_auth_method ses))]))"
proof -
  obtain found w1 where f: "ur_find_aggregate_by_id R user_id w = (Inr found, w1)" and w1: "db w1 = db w"
    and k: "bindE (liftE (ok_or UserNotFound found)) (\<lambda>aggregate.
     bindE (on_aggregate E (\<lambda>clk. invalidate_session clk sid) aggregate) (\<lambda>(invalidated, ag).
     bindE (liftE invalidated) (\<lambda>_.
     bindE (ur_save_aggregate R ag []) (\<lambda>_. returnE (fst (take_events ag)))))) w1 = (r, w')"
    by (rule read_only_step [OF assms(1) [unfolded logout_def] finders_are_read_only(1) no refl])
  obtain ag where ag: "found = Some ag" using k no w1 by (cases found) auto
  then have ld: "loaded (sessions_in (db w)) ag" "u_id (ag_user ag) = user_id"
    using found_loaded(1) [OF assms(2)] f by blast+
  obtain q ag1 where inv: "invalidate_session (utc E (tick w1)) sid ag = (q, ag1)" by fastforce
  have k': "bindE (liftE q) (\<lambda>_. bindE (ur_save_aggregate R ag1 []) (\<lambda>_. returnE (fst (take_events ag1)))) (next_tick w1) = (r, w')"
    using k by (simp add: ag on_aggregate_def inv bindE_def [of "on_aggregate _ _ _"])
  have "\<exists>m. q = Inr m" using k' no w1 by (cases q) (auto simp: next_tick_def)
  then obtain old e t where o: "find_session sid (ag_sessions ag) = Some old" "s_user_id old = user_id" "s_is_active old"
      "ag1 = push_event e (invalidate_first sid ag)"
      "e = UserLoggedOut (UserLoggedOut_new t user_id sid (s_auth_method old))"
    using inv ld(2) by (auto simp: invalidate_session_def split: option.splits if_splits)
  have es: "fst (take_events ag1) = [e]" using ld(1) by (simp add: o(4) take_events_def loaded_def)
  have "bindE (ur_save_aggregate R ag1 []) (\<lambda>_. returnE [e]) (next_tick w1) = (r, w')"
    using k' \<open>\<exists>m. q = Inr m\<close> es by (elim exE) simp
  then obtain p where p: "ur_save_aggregate R ag1 [] (next_tick w1) = (p, w')"
    and r: "(\<exists>e. r = Inl e) \<longleftrightarrow> (\<exists>e. p = Inl e)" "\<forall>es. r = Inr es \<longrightarrow> es = [e]"
    by (rule bindE_last)
  have "db (next_tick w1) = db w" by (simp add: next_tick_def w1)
  then have sv: "accepts (db w')" "users_in (db w') = users_in (db w)" "saved_to ag1 [] (sessions_in (db w)) (sessions_in (db w'))"
    using saved [OF p] assms(2) no r(1) by simp_all
  have old: "old \<in> sessions_in (db w)" "s_id old = sid"
    using find_session_SomeD [OF o(1)] ld(1) by (auto simp: loaded_def)
  have ids: "set (invalidated_ids ag1) = set (invalidated_ids ag) \<union> {sid}"
    unfolding o(4) by (rule invalidated_ids_update_first [OF o(1)])
  have "{sid} \<subseteq> s_id ` sessions_in (db w)" using imageI [OF old(1), of s_id] old(2) by simp
  from saved_to_off [OF sv(3) unique_sessions [OF assms(2)] ld(1) ids this]
  have "sessions_in (db w') = off {sid} (sessions_in (db w))" by auto
  with sv(1,2) old o(2,3,5) r(2) show ?thesis by blast
qed

lemma load_created:
  assumes "bindE (ur_find_aggregate_by_id R (u_id u)) (\<lambda>found.
             bindE (liftE (ok_or err found)) (\<lambda>agg. returnE (agg, True))) w = (q, w')"
    and "accepts (db w)" and "users_in (db w) = insert u us" and "u_id u \<notin> u_id ` us"
  shows "db w' = db w \<and> (\<forall>ag n. q = Inr (ag, n) \<longrightarrow> n \<and> ag_user ag = u \<and> loaded (sessions_in (db w)) ag)"
proof -
  obtain found w1 where f: "ur_find_aggregate_by_id R (u_id u) w = (found, w1)" by fastforce
  have w1: "db w1 = db w" by (rule read_onlyD [OF finders_are_read_only(1) f])
  have "w' = w1" and q: "\<And>ag n. q = Inr (ag, n) \<Longrightarrow> found = Inr (Some ag) \<and> n"
    using assms(1) f by (auto simp: bindE_def ok_or_def liftE_def returnE_def split: sum.splits option.splits)
  moreover have "ag_user ag = u \<and> loaded (sessions_in (db w)) ag" if "found = Inr (Some ag)" for ag
  proof -
    have "loaded (sessions_in (db w)) ag" "u_id (ag_user ag) = u_id u" "ag_user ag \<in> insert u us"
      using found_loaded(1) [OF assms(2)] f that assms(3) by blast+
    then show ?thesis using assms(4) by (metis imageI insertE)
  qed
  ultimately show ?thesis using w1 by blast
qed

lemma find_or_create_effect:
  assumes "find_or_create R info w = (q, w')" and "accepts (db w)" and no: "\<not> ((\<exists>e. q = Inl e) \<and> db w' = db w)"
  shows "\<exists>u. accepts (db w') \<and> sessions_in (db w') = sessions_in (db w) \<and> account info u (users_in (db w)) (users_in (db w')) \<and>
           (\<forall>ag is_new. q = Inr (ag, is_new) \<longrightarrow> ag_user ag = u \<and> loaded (sessions_in (db w')) ag \<and>
              (is_new \<longleftrightarrow> u \<notin> users_in (db w)))"
proof -
  obtain found w1 where f: "ur_find_aggregate_by_email R (gi_email info) w = (Inr found, w1)" and w1: "db w1 = db w"
    and k: "(case found of
         Some agg \<Rightarrow> returnE (agg, False)
       | None \<Rightarrow>
           bindE (liftE (map_err (\<lambda>e. InternalError (domain_error_display e)) (Email_new (gi_email info)))) (\<lambda>email.
           bindE (ur_create R (new_google email (gi_name info))) (\<lambda>user.
           bindE (ur_find_aggregate_by_id R (u_id user)) (\<lambda>found.
           bindE (liftE (ok_or (InternalError ''created user not found'') found)) (\<lambda>agg.
           returnE (agg, True)))))) w1 = (q, w')"
    by (rule read_only_step [OF assms(1) [unfolded find_or_create_def] finders_are_read_only(3) no refl])
  show ?thesis
  proof (cases found)
    case (Some ag)
    then have "q = Inr (ag, False)" "w' = w1" using k by auto
    moreover have "loaded (sessions_in (db w)) ag" "email_as_str (u_email (ag_user ag)) = gi_email info" "ag_user ag \<in> users_in (db w)"
      using found_loaded(3) [OF assms(2)] f Some by blast+
    ultimately show ?thesis using w1 assms(2) by (intro exI [of _ "ag_user ag"]) (simp add: account_def)
  next
    case None
    obtain email where email: "Email_new (gi_email info) = Inr email"
      using k None no w1 by (cases "Email_new (gi_email info)") auto
    let ?nu = "new_google (Email (gi_email info)) (gi_name info)"
    have e: "email = Email (gi_email info)" "Email_new (gi_email info) = Inr (Email (gi_email info))"
      using email by (simp_all add: Email_new_iff)
    then have c: "creatable ?nu" by (simp add: creatable_def new_google_def)
    obtain ru w2 where ru: "ur_create R ?nu w1 = (ru, w2)" by fastforce
    have k2: "bindE (ur_create R ?nu) (\<lambda>user.
           bindE (ur_find_aggregate_by_id R (u_id user)) (\<lambda>found.
           bindE (liftE (ok_or (InternalError ''created user not found'') found)) (\<lambda>agg.
           returnE (agg, True)))) w1 = (q, w')"
      using k None e by simp
    have unchanged: "\<not> ((\<exists>e. ru = Inl e) \<and> db w2 = db w1)"
      using k2 ru no w1 by (auto simp: bindE_def)
    then obtain u where u: "ru = Inr u \<or> (\<exists>e. ru = Inl e)" "accepts (db w2)" "created_user ?nu u"
        "u_id u \<notin> u_id ` users_in (db w)" "users_in (db w2) = insert u (users_in (db w))" "sessions_in (db w2) = sessions_in (db w)"
      using create_whole_or_nothing [OF _ c ru] assms(2) w1 by auto
    have rest: "db w' = db w2 \<and> (\<forall>ag n. q = Inr (ag, n) \<longrightarrow> n \<and> ag_user ag = u \<and> loaded (sessions_in (db w2)) ag)"
    proof (cases ru)
      case (Inl e)
      with k2 ru show ?thesis by (auto simp: bindE_def [of "ur_create _ _"])
    next
      case (Inr x)
      with u(1) have "x = u" by auto
      with k2 ru Inr show ?thesis
        by (intro load_created [OF _ u(2,5,4)]) (simp add: bindE_Inr)
    qed
    then show ?thesis using u by (intro exI [of _ u]) (auto simp: account_def)
  qed
qed

lemma login_with_google_effect:
  assumes "login_with_google E R P js settings id_token w = (r, w')" and "accepts (db w)" and "bcrypt_text (bcrypt E)"
    and "read_only (ap_verify_id_token P id_token)" and no: "\<not> ((\<exists>e. r = Inl e) \<and> db w' = db w)"
  shows "\<exists>info w1 u. ap_verify_id_token P id_token w = (Inr info, w1) \<and> accepts (db w') \<and>
           account info u (users_in (db w)) (users_in (db w')) \<and>
           ((\<exists>e. r = Inl e) \<and> sessions_in (db w') = sessions_in (db w) \<or>
            (\<exists>ses. sessions_in (db w') = insert ses (sessions_in (db w)) \<and> s_id ses \<notin> s_id ` sessions_in (db w) \<and>
               opened (bcrypt E) settings GoogleOAuth u ses \<and>
               (\<forall>lr. r = Inr lr \<longrightarrow> google_reported (bcrypt E) settings u ses (u \<notin> users_in (db w)) lr)))"
proof -
  obtain info w1 where v: "ap_verify_id_token P id_token w = (Inr info, w1)" and w1: "db w1 = db w"
    and k1: "bindE (find_or_create R info) (\<lambda>(aggregate, is_new_user).
       bindE (open_session E R js settings GoogleOAuth aggregate) (google_events E is_new_user)) w1 = (r, w')"
    by (rule read_only_step [OF assms(1) [unfolded login_with_google_def] assms(4) no refl])
  obtain q w2 where q: "find_or_create R info w1 = (q, w2)" by fastforce
  have "\<not> ((\<exists>e. q = Inl e) \<and> db w2 = db w)" using k1 q no by (auto simp: bindE_def)
  from find_or_create_effect [OF q, unfolded w1, OF assms(2) this]
  obtain u where u: "accepts (db w2)" "sessions_in (db w2) = sessions_in (db w)"
      "account info u (users_in (db w)) (users_in (db w2))"
      "\<And>ag is_new. q = Inr (ag, is_new) \<Longrightarrow> ag_user ag = u \<and> loaded (sessions_in (db w2)) ag \<and> (is_new \<longleftrightarrow> u \<notin> users_in (db w))"
    by blast
  show ?thesis
  proof (cases q)
    case (Inl e)
    then have "r = Inl e" "w' = w2" using k1 q by (simp_all add: bindE_def)
    then show ?thesis using v u(1-3) by blast
  next
    case (Inr x)
    obtain ag is_new where x: "x = (ag, is_new)" by fastforce
    note a = u(4) [OF Inr [unfolded x]]
    have k2: "bindE (open_session E R js settings GoogleOAuth ag) (google_events E is_new) w2 = (r, w')"
      using k1 q by (simp add: bindE_Inr Inr x)
    obtain p w3 where p: "open_session E R js settings GoogleOAuth ag w2 = (p, w3)" by fastforce
    have fin: "db w' = db w3" "(\<exists>e. r = Inl e) \<longleftrightarrow> (\<exists>e. p = Inl e)"
      "\<And>ses lr. \<lbrakk>r = Inr lr; \<forall>lr. p = Inr lr \<longrightarrow> reported (bcrypt E) settings GoogleOAuth u ses lr\<rbrakk>
          \<Longrightarrow> google_reported (bcrypt E) settings u ses is_new lr"
      using google_events_step [OF k2 p, of "bcrypt E" settings u] by blast+
    show ?thesis
    proof (cases "(\<exists>e. p = Inl e) \<and> db w3 = db w2")
      case True
      then have "\<exists>e. r = Inl e" "db w' = db w2" by (simp_all only: fin(1,2))
      then show ?thesis using v u(1-3) by auto
    next
      case False
      obtain ses where "accepts (db w3)" "users_in (db w3) = users_in (db w2)"
            "sessions_in (db w3) = insert ses (sessions_in (db w2))" "s_id ses \<notin> s_id ` sessions_in (db w2)"
            "opened (bcrypt E) settings GoogleOAuth u ses"
            "\<forall>lr. p = Inr lr \<longrightarrow> reported (bcrypt E) settings GoogleOAuth u ses lr"
        using open_session_effect [OF p u(1) assms(3) _ False] a by auto
      then show ?thesis
        using v u(2,3) fin(1) fin(3) [of _ ses] a
        by (intro exI [of _ info] exI [of _ w1] exI [of _ u]) auto
    qed
  qed
qed

end


section \<open>The PostgreSQL repository keeps the contract\<close>

lemma internal_errors_simps [intro]:
  "internal_errors (returnE x)"
  "(\<And>e. r = Inl e \<Longrightarrow> \<exists>t. e = InternalError t) \<Longrightarrow> internal_errors (liftE r)"
  "internal_errors (map_errE (\<lambda>e. InternalError (f e)) m)"
  "internal_errors (tx_nowE E)"
  by (auto simp: internal_errors_def returnE_def liftE_def map_errE_def tx_nowE_def map_err_eq_Inl split: prod.splits)

lemma internal_errors_bindE [intro]:
  assumes "internal_errors m" and "\<And>x. internal_errors (k x)"
  shows "internal_errors (bindE m k)"
  unfolding internal_errors_def
proof (intro allI impI)
  fix w e
  assume e: "fst (bindE m k w) = Inl e"
  obtain q w1 where q: "m w = (q, w1)" by fastforce
  show "\<exists>t. e = InternalError t"
  proof (cases q)
    case (Inl e')
    with e q have "fst (m w) = Inl e" by (simp add: bindE_def)
    with assms(1) show ?thesis unfolding internal_errors_def by blast
  next
    case (Inr x)
    with e q have "fst (k x w1) = Inl e" by (simp add: bindE_def)
    with assms(2) [of x] show ?thesis unfolding internal_errors_def by blast
  qed
qed

lemma into_errors:
  "into_user r = Inl e \<Longrightarrow> \<exists>t. e = InternalError t"
  "into_session s = Inl e \<Longrightarrow> \<exists>t. e = InternalError t"
  unfolding into_user_def into_session_def bindR_def map_err_def by (auto split: sum.splits)

lemma collect_errors:
  "transposeR into_user row = Inl e \<Longrightarrow> \<exists>t. e = InternalError t"
  "collectR into_session rows = Inl e \<Longrightarrow> \<exists>t. e = InternalError t"
  by (auto simp: transposeR_def split: option.splits sum.splits dest: into_errors collectR_error)

lemma find_aggregate_by_id_errors: "internal_errors (find_aggregate_by_id E uid)"
proof -
  have "internal_errors (with_sessions E u)" for u
    unfolding with_sessions_def load_aggregate_def queryE_def
    by (cases u) (auto intro!: internal_errors_bindE internal_errors_simps dest: collect_errors)
  then show ?thesis
    unfolding find_aggregate_by_id_def find_by_id_def queryE_def
    by (intro internal_errors_bindE internal_errors_simps) (auto dest: collect_errors)
qed

lemma for_each_errors: "(\<And>x. internal_errors (f x)) \<Longrightarrow> internal_errors (for_each f xs)"
  by (induction xs) (auto intro!: internal_errors_bindE internal_errors_simps)

lemma save_aggregate_errors: "internal_errors (save_aggregate E ag nss)"
proof -
  let ?body = "bindE (for_each (insert_session E) nss) (\<lambda>_.
        for_each (\<lambda>sid. tx_queryE E (update_session_inactive sid)) (invalidated_ids ag))"
  have body: "internal_errors ?body"
    unfolding insert_session_def tx_queryE_def
    by (intro internal_errors_bindE for_each_errors internal_errors_simps)
  have "internal_errors (\<lambda>w. case ?body (db w, w) of (Inl e, d, w1) \<Rightarrow> (Inl e, w1)
          | (Inr x, d, w1) \<Rightarrow> map_errE (\<lambda>e. InternalError (pg_show E e)) (commitE E d) w1)"
    unfolding internal_errors_def
  proof (intro allI impI)
    fix w e
    assume e: "fst (case ?body (db w, w) of (Inl e, d, w1) \<Rightarrow> (Inl e, w1)
          | (Inr x, d, w1) \<Rightarrow> map_errE (\<lambda>e. InternalError (pg_show E e)) (commitE E d) w1) = Inl e"
    obtain q d w1 where q: "?body (db w, w) = (q, d, w1)" by (metis prod_cases3)
    show "\<exists>t. e = InternalError t"
    proof (cases q)
      case (Inl e')
      with body q have "\<exists>t. e' = InternalError t" unfolding internal_errors_def by (metis fst_conv)
      with e q Inl show ?thesis by simp
    next
      case (Inr x)
      with e q have "fst (map_errE (\<lambda>e. InternalError (pg_show E e)) (commitE E d) w1) = Inl e" by simp
      with internal_errors_simps(3) [of "pg_show E" "commitE E d"] show ?thesis
        unfolding internal_errors_def by blast
    qed
  qed
  then show ?thesis
    unfolding save_aggregate_def transaction_def by (intro internal_errors_bindE internal_errors_simps)
qed

interpretation postgres_auth: auth_store "postgres_user_repo E" readable known stored
  for E :: "('e) env_scheme"
  by unfold_locales
     (simp_all add: postgres_user_repo_def find_aggregate_by_id_errors save_aggregate_errors)

end
