(* ===== verification/Auth_Spec.thy ===== *)
theory Auth_Spec
  imports Auth_Use_Cases
begin

text \<open>
  What the auth module promises, without databases, tokens or clocks: a book of users and
  sessions and the steps that may change it.  Every call of a use case over the PostgreSQL
  repository, whatever fails on the way, is a sequence of such steps; what holds of the
  steps (nobody is forgotten, nothing revoked comes back) then holds of every run.
\<close>

section \<open>The book and its steps\<close>

record book =
  bk_users :: "user set"
  bk_sessions :: "session set"

definition fresh_session :: "book \<Rightarrow> uuid \<Rightarrow> auth_method \<Rightarrow> session \<Rightarrow> bool" where
  "fresh_session b uid m ses \<longleftrightarrow>
     s_id ses \<notin> s_id ` bk_sessions b \<and> s_user_id ses = uid \<and> s_auth_method ses = m \<and> s_is_active ses"

definition add_to_book :: "session \<Rightarrow> book \<Rightarrow> book" where
  "add_to_book ses b = b\<lparr>bk_sessions := insert ses (bk_sessions b)\<rparr>"

definition close_in_book :: "uuid set \<Rightarrow> book \<Rightarrow> book" where
  "close_in_book ids b = b\<lparr>bk_sessions := off ids (bk_sessions b)\<rparr>"

text \<open>The parameter tells which secret verifies against which hash.\<close>

inductive book_step :: "(string \<Rightarrow> string \<Rightarrow> bool) \<Rightarrow> book \<Rightarrow> book \<Rightarrow> bool" for verifies where
  password_login:
    "\<lbrakk>u \<in> bk_users b; u_password_hash u = Some hash; verifies password (hash_as_str hash);
      fresh_session b (u_id u) Password ses\<rbrakk> \<Longrightarrow> book_step verifies b (add_to_book ses b)"
| google_login:
    "\<lbrakk>u \<in> bk_users b; fresh_session b (u_id u) GoogleOAuth ses\<rbrakk> \<Longrightarrow> book_step verifies b (add_to_book ses b)"
| google_registration:
    "\<lbrakk>u_id u \<notin> u_id ` bk_users b; u_auth_provider u = Google; u_password_hash u = None\<rbrakk>
     \<Longrightarrow> book_step verifies b (b\<lparr>bk_users := insert u (bk_users b)\<rparr>)"
| rotation:
    "\<lbrakk>old \<in> bk_sessions b; s_is_active old; verifies token (hash_as_str (s_refresh_token_hash old));
      fresh_session b (s_user_id old) (s_auth_method old) ses\<rbrakk>
     \<Longrightarrow> book_step verifies b (add_to_book ses (close_in_book {s_id old} b))"
| reuse:
    "\<lbrakk>old \<in> bk_sessions b; \<not> s_is_active old\<rbrakk>
     \<Longrightarrow> book_step verifies b (close_in_book {s_id s | s. s \<in> bk_sessions b \<and> s_user_id s = s_user_id old} b)"
| logout_step:
    "\<lbrakk>ses \<in> bk_sessions b; s_is_active ses\<rbrakk> \<Longrightarrow> book_step verifies b (close_in_book {s_id ses} b)"

abbreviation book_run :: "(string \<Rightarrow> string \<Rightarrow> bool) \<Rightarrow> book \<Rightarrow> book \<Rightarrow> bool" where
  "book_run verifies \<equiv> (book_step verifies)\<^sup>*\<^sup>*"

lemma book_stepI: "book_step verifies b b' \<Longrightarrow> book_run verifies b b'"
  by (rule r_into_rtranclp)


section \<open>Calls of the use cases\<close>

datatype auth_call =
    Password_Call string string
  | Google_Call string
  | Refresh_Call string
  | Logout_Call uuid uuid

text \<open>The world after a call; what it returned is the caller's.\<close>

fun after_call ::
  "('e) auth_lib_env_scheme \<Rightarrow> 'z auth_world_scheme auth_provider_port \<Rightarrow> jwt_service \<Rightarrow> auth_settings
   \<Rightarrow> auth_call \<Rightarrow> 'z auth_world_scheme \<Rightarrow> 'z auth_world_scheme" where
  "after_call E P js settings (Password_Call username password) w =
     snd (login_with_password E (postgres_user_repo E) js settings username password w)"
| "after_call E P js settings (Google_Call id_token) w =
     snd (login_with_google E (postgres_user_repo E) P js settings id_token w)"
| "after_call E P js settings (Refresh_Call token) w =
     snd (refresh_token E (postgres_user_repo E) js token settings w)"
| "after_call E P js settings (Logout_Call user_id session_id) w =
     snd (logout E (postgres_user_repo E) user_id session_id w)"

fun after_calls ::
  "('e) auth_lib_env_scheme \<Rightarrow> 'z auth_world_scheme auth_provider_port \<Rightarrow> jwt_service \<Rightarrow> auth_settings
   \<Rightarrow> auth_call list \<Rightarrow> 'z auth_world_scheme \<Rightarrow> 'z auth_world_scheme" where
  "after_calls E P js settings [] w = w"
| "after_calls E P js settings (c # cs) w = after_calls E P js settings cs (after_call E P js settings c w)"

definition book_of :: "database \<Rightarrow> book" where
  "book_of d = \<lparr>bk_users = known d, bk_sessions = stored d\<rparr>"

lemma book_of_simps [simp]:
  "bk_users (book_of d) = known d"
  "bk_sessions (book_of d) = stored d"
  by (simp_all add: book_of_def)

lemma book_of_eqI: "known d' = bk_users b \<Longrightarrow> stored d' = bk_sessions b \<Longrightarrow> book_of d' = b"
  by (simp add: book_of_def)

definition verified_by :: "('e) auth_lib_env_scheme \<Rightarrow> string \<Rightarrow> string \<Rightarrow> bool" where
  "verified_by E secret hash \<longleftrightarrow> bc_verify (bcrypt E) secret hash = Inr True"

lemma add_to_book_of:
  "known d' = known d \<Longrightarrow> stored d' = insert ses (stored d) \<Longrightarrow> book_of d' = add_to_book ses (book_of d)"
  by (simp add: book_of_def add_to_book_def)

lemma close_in_book_of:
  "known d' = known d \<Longrightarrow> stored d' = off ids (stored d) \<Longrightarrow> book_of d' = close_in_book ids (book_of d)"
  by (simp add: book_of_def close_in_book_def)

lemma opened_fresh:
  "opened L settings m u ses \<Longrightarrow> s_id ses \<notin> s_id ` stored d \<Longrightarrow> fresh_session (book_of d) (u_id u) m ses"
  by (simp add: opened_def fresh_session_def)

text \<open>The world is its database as far as the book goes.\<close>

definition refines :: "(string \<Rightarrow> string \<Rightarrow> bool) \<Rightarrow> database \<Rightarrow> database \<Rightarrow> bool" where
  "refines verifies d d' \<longleftrightarrow> readable d' \<and> book_run verifies (book_of d) (book_of d')"

lemma refines_refl: "readable d \<Longrightarrow> refines verifies d d"
  by (simp add: refines_def)

lemma refines_step: "readable d' \<Longrightarrow> book_step verifies (book_of d) (book_of d') \<Longrightarrow> refines verifies d d'"
  by (simp add: refines_def book_stepI)

lemma password_refines:
  assumes "readable (db w)" and "bcrypt_text (bcrypt E)"
  shows "refines (verified_by E) (db w) (db (snd (login_with_password E (postgres_user_repo E) js settings username password w)))"
proof -
  obtain r w' where call: "login_with_password E (postgres_user_repo E) js settings username password w = (r, w')"
    by fastforce
  show ?thesis
  proof (cases "(\<exists>e. r = Inl e) \<and> db w' = db w")
    case True
    with call assms(1) show ?thesis by (simp add: refines_refl)
  next
    case False
    from postgres_auth.login_with_password_effect [OF call assms False]
    obtain u hash ses where "u \<in> known (db w)" "u_password_hash u = Some hash"
        "bc_verify (bcrypt E) password (hash_as_str hash) = Inr True" "readable (db w')" "known (db w') = known (db w)"
        "stored (db w') = insert ses (stored (db w))" "s_id ses \<notin> s_id ` stored (db w)"
        "opened (bcrypt E) settings Password u ses" by blast
    with call show ?thesis
      by (auto simp: verified_by_def intro!: refines_step book_step.password_login opened_fresh simp: add_to_book_of)
  qed
qed


lemma logout_refines:
  fixes w :: "'z auth_world_scheme"
  assumes "readable (db w)"
  shows "refines verifies (db w) (db (snd (logout E (postgres_user_repo E) user_id session_id w)))"
proof -
  obtain r w' where call: "logout E (postgres_user_repo E) user_id session_id w = (r, w')" by fastforce
  show ?thesis
  proof (cases "(\<exists>e. r = Inl e) \<and> db w' = db w")
    case True
    with call assms show ?thesis by (simp add: refines_refl)
  next
    case False
    from postgres_auth.logout_effect [OF call assms False]
    obtain ses where ses: "ses \<in> stored (db w)" "s_id ses = session_id" "s_is_active ses" "readable (db w')"
        "known (db w') = known (db w)" "stored (db w') = off {session_id} (stored (db w))" by blast
    have "book_of (db w') = close_in_book {s_id ses} (book_of (db w))" using ses by (intro close_in_book_of) simp_all
    then have "book_step verifies (book_of (db w)) (book_of (db w'))"
      using book_step.logout_step [of ses "book_of (db w)" verifies] ses(1,3) by simp
    with ses(4) call show ?thesis by (simp add: refines_step)
  qed
qed

lemma rotated_step:
  assumes "rotated_to (bcrypt E) settings token claims (stored d) (stored d') r" and "known d' = known d"
  shows "book_step (verified_by E) (book_of d) (book_of d')"
proof -
  obtain old ses where o: "old \<in> stored d" "s_id old = rc_session_id claims" "s_user_id old = rc_sub claims" "s_is_active old"
      "bc_verify (bcrypt E) token (hash_as_str (s_refresh_token_hash old)) = Inr True"
      "s_id ses \<notin> s_id ` stored d" "s_user_id ses = rc_sub claims" "s_is_active ses" "s_auth_method ses = s_auth_method old"
      "stored d' = insert ses (off {rc_session_id claims} (stored d))"
    using assms(1) unfolding rotated_to_def by blast
  have "book_of d' = add_to_book ses (close_in_book {s_id old} (book_of d))"
    using o assms(2) by (simp add: book_of_def add_to_book_def close_in_book_def)
  moreover have "book_step (verified_by E) (book_of d) (add_to_book ses (close_in_book {s_id old} (book_of d)))"
    by (rule book_step.rotation [where token = token]) (use o in \<open>simp_all add: verified_by_def fresh_session_def\<close>)
  ultimately show ?thesis by simp
qed

lemma revoked_step:
  assumes "all_revoked claims (stored d) (stored d') r" and "known d' = known d"
  shows "book_step verifies (book_of d) (book_of d')"
proof -
  obtain old where o: "old \<in> stored d" "s_user_id old = rc_sub claims" "\<not> s_is_active old"
      "stored d' = off {s_id s | s. s \<in> stored d \<and> s_user_id s = rc_sub claims} (stored d)"
    using assms(1) unfolding all_revoked_def by blast
  have "book_of d' = close_in_book {s_id s | s. s \<in> bk_sessions (book_of d) \<and> s_user_id s = s_user_id old} (book_of d)"
    using o(2,4) assms(2) by (simp add: book_of_def close_in_book_def)
  moreover have "book_step verifies (book_of d) \<dots>" by (rule book_step.reuse) (use o in simp_all)
  ultimately show ?thesis by simp
qed

lemma refresh_refines:
  assumes "readable (db w)" and "bcrypt_text (bcrypt E)"
  shows "refines (verified_by E) (db w) (db (snd (refresh_token E (postgres_user_repo E) js token settings w)))"
proof -
  obtain r w' where call: "refresh_token E (postgres_user_repo E) js token settings w = (r, w')" by fastforce
  show ?thesis
  proof (cases "\<exists>e. r = Inl e \<and> e \<noteq> SessionInvalidated \<and> db w' = db w")
    case True
    then have "db w' = db w" by (elim exE conjE)
    with call assms(1) show ?thesis by (simp add: refines_refl)
  next
    case False
    from postgres_auth.refresh_token_effect [OF call assms False]
    obtain claims where "readable (db w')" "known (db w') = known (db w)"
        "rotated_to (bcrypt E) settings token claims (stored (db w)) (stored (db w')) r \<or>
         all_revoked claims (stored (db w)) (stored (db w')) r" by blast
    with call rotated_step [of E settings token claims "db w" "db w'" r] revoked_step [of claims "db w" "db w'" r]
    show ?thesis by (auto intro: refines_step)
  qed
qed

lemma account_refines:
  assumes "account info u (known d) us"
  shows "book_run verifies (book_of d) \<lparr>bk_users = us, bk_sessions = stored d\<rparr> \<and> u \<in> us"
  using assms unfolding account_def
proof (elim disjE conjE)
  assume "u \<in> known d" "us = known d"
  then show ?thesis by (simp add: book_of_def)
next
  assume new: "u_id u \<notin> u_id ` known d" "created_user (new_google (Email (gi_email info)) (gi_name info)) u" "us = insert u (known d)"
  then have "book_step verifies (book_of d) ((book_of d)\<lparr>bk_users := insert u (bk_users (book_of d))\<rparr>)"
    by (intro book_step.google_registration) (simp_all add: created_user_def new_google_def)
  with new(3) show ?thesis by (auto simp: book_of_def intro: book_stepI)
qed

lemma google_refines:
  assumes "readable (db w)" and "bcrypt_text (bcrypt E)" and "read_only (ap_verify_id_token P id_token)"
  shows "refines verifies (db w) (db (snd (login_with_google E (postgres_user_repo E) P js settings id_token w)))"
proof -
  obtain r w' where call: "login_with_google E (postgres_user_repo E) P js settings id_token w = (r, w')" by fastforce
  show ?thesis
  proof (cases "(\<exists>e. r = Inl e) \<and> db w' = db w")
    case True
    with call assms show ?thesis by (simp add: refines_refl)
  next
    case False
    let ?b = "\<lparr>bk_users = known (db w'), bk_sessions = stored (db w)\<rparr>"
    from postgres_auth.login_with_google_effect [OF call assms False]
    obtain info u where u: "readable (db w')" "account info u (known (db w)) (known (db w'))"
        "stored (db w') = stored (db w) \<or>
         (\<exists>ses. stored (db w') = insert ses (stored (db w)) \<and> s_id ses \<notin> s_id ` stored (db w) \<and>
            opened (bcrypt E) settings GoogleOAuth u ses)" by blast
    note reg = account_refines [OF u(2), of verifies]
    from u(3) have "book_run verifies ?b (book_of (db w'))"
    proof
      assume "stored (db w') = stored (db w)"
      then show ?thesis by (simp add: book_of_def)
    next
      assume "\<exists>ses. stored (db w') = insert ses (stored (db w)) \<and> s_id ses \<notin> s_id ` stored (db w) \<and>
            opened (bcrypt E) settings GoogleOAuth u ses"
      then obtain ses where ses: "book_of (db w') = add_to_book ses ?b" "fresh_session ?b (u_id u) GoogleOAuth ses"
        by (auto simp: book_of_def add_to_book_def fresh_session_def opened_def)
      show ?thesis unfolding ses(1) by (rule book_stepI, rule book_step.google_login [OF _ ses(2)]) (use reg in simp)
    qed
    with reg u(1) call show ?thesis by (auto simp: refines_def)
  qed
qed

lemma call_refines:
  assumes "readable (db w)" and "bcrypt_text (bcrypt E)" and "\<forall>id_token. read_only (ap_verify_id_token P id_token)"
  shows "refines (verified_by E) (db w) (db (after_call E P js settings c w))"
  by (cases c) (simp_all add: password_refines refresh_refines logout_refines google_refines assms)

text \<open>The refinement over a run of calls.\<close>

lemma calls_refine:
  assumes "readable (db w)" and "bcrypt_text (bcrypt E)" and "\<forall>id_token. read_only (ap_verify_id_token P id_token)"
  shows "refines (verified_by E) (db w) (db (after_calls E P js settings cs w))"
  using assms(1)
proof (induction cs arbitrary: w)
  case Nil
  then show ?case by (simp add: refines_refl)
next
  case (Cons c cs)
  note one = call_refines [OF Cons.prems assms(2,3), of js settings c]
  with Cons.IH [of "after_call E P js settings c w"] show ?case by (auto simp: refines_def)
qed


section \<open>What the steps keep\<close>

text \<open>The later book has every user of the earlier one as they were, and every session with the
  same owner, method, hash and expiry, and not active again once it was closed.\<close>

definition extends_book :: "book \<Rightarrow> book \<Rightarrow> bool" where
  "extends_book b b' \<longleftrightarrow>
     bk_users b \<subseteq> bk_users b' \<and> (\<forall>s \<in> bk_sessions b. s \<in> bk_sessions b' \<or> invalidate s \<in> bk_sessions b')"

definition ids_unique :: "book \<Rightarrow> bool" where
  "ids_unique b \<longleftrightarrow> inj_on s_id (bk_sessions b)"

lemma off_extends: "s \<in> ss \<Longrightarrow> s \<in> off ids ss \<or> invalidate s \<in> off ids ss"
  unfolding off_def by (cases "s_id s \<in> ids") (auto intro: rev_image_eqI)

lemma ids_unique_add: "ids_unique b \<Longrightarrow> fresh_session b uid m ses \<Longrightarrow> ids_unique (add_to_book ses b)"
  by (simp add: ids_unique_def add_to_book_def fresh_session_def inj_on_insert) blast

lemma off_ids: "s_id ` off ids ss = s_id ` ss"
  unfolding off_def image_image by (rule image_cong) simp_all

lemma ids_unique_close: "ids_unique b \<Longrightarrow> ids_unique (close_in_book ids b)"
proof -
  assume b: "ids_unique b"
  let ?g = "\<lambda>s. if s_id s \<in> ids then invalidate s else s"
  have "s_id \<circ> ?g = s_id" by (rule ext) simp
  then have "inj_on (s_id \<circ> ?g) (bk_sessions b)" using b by (simp add: ids_unique_def)
  then have "inj_on s_id (?g ` bk_sessions b)" by (rule inj_on_imageI)
  then show ?thesis by (simp add: ids_unique_def close_in_book_def off_def)
qed

lemma fresh_after_close: "fresh_session b uid m ses \<Longrightarrow> fresh_session (close_in_book ids b) uid m ses"
  by (simp add: fresh_session_def close_in_book_def off_ids)

lemma close_extends: "extends_book b (close_in_book ids b)"
  unfolding extends_book_def close_in_book_def using off_extends by simp

lemma add_extends: "extends_book b (add_to_book ses b)"
  by (simp add: extends_book_def add_to_book_def)

lemma extends_book_trans: "extends_book b b' \<Longrightarrow> extends_book b' b'' \<Longrightarrow> extends_book b b''"
proof -
  assume b: "extends_book b b'" and b': "extends_book b' b''"
  have "s \<in> bk_sessions b'' \<or> invalidate s \<in> bk_sessions b''" if "s \<in> bk_sessions b" for s
  proof -
    have "s \<in> bk_sessions b' \<or> invalidate s \<in> bk_sessions b'" using b that by (simp add: extends_book_def)
    moreover have "t \<in> bk_sessions b'' \<or> invalidate t \<in> bk_sessions b''" if "t \<in> bk_sessions b'" for t
      using b' that by (simp add: extends_book_def)
    ultimately show ?thesis using invalidate_simps(8) [of s] by metis
  qed
  moreover have "bk_users b \<subseteq> bk_users b''" using b b' by (auto simp: extends_book_def)
  ultimately show ?thesis by (simp add: extends_book_def)
qed

lemma step_keeps:
  assumes "book_step verifies b b'" and "ids_unique b"
  shows "ids_unique b' \<and> extends_book b b'"
  using assms
proof (cases rule: book_step.cases)
  case rotation
  then show ?thesis
    using assms(2) ids_unique_add [OF ids_unique_close fresh_after_close]
      extends_book_trans [OF close_extends add_extends] by simp
qed (simp_all add: ids_unique_add ids_unique_close close_extends add_extends, simp_all add: extends_book_def ids_unique_def subset_insertI)

lemma run_keeps:
  assumes "book_run verifies b b'" and "ids_unique b"
  shows "ids_unique b' \<and> extends_book b b'"
  using assms
proof (induction rule: rtranclp_induct)
  case base
  then show ?case by (simp add: extends_book_def)
next
  case (step b1 b2)
  then show ?case using step_keeps extends_book_trans by blast
qed



section \<open>A deployment for the witnesses\<close>

text \<open>Ann's account with one session; every connection up, a token library that knows one
  refresh token, that of Ann's session, and a bcrypt that accepts one secret.\<close>

definition demo_claims :: refresh_token_claims where
  "demo_claims = \<lparr>rc_sub = 1, rc_session_id = 5, rc_iss = ''i'', rc_aud = ''a'', rc_exp = 1000, rc_iat = 0\<rparr>"

definition demo_jwt :: jwt_lib where
  "demo_jwt = uuid_lib.extend sample_uuid_lib (jwt_lib.fields
     (\<lambda>k c. Some ''T'')
     (\<lambda>k v now t. if t = ''R'' then Some (refresh_object sample_uuid_lib demo_claims) else None))"

definition demo_bcrypt :: bcrypt_lib where
  "demo_bcrypt = \<lparr>bc_hash = (\<lambda>n p c. Inr (replicate 60 CHR ''h'')), bc_verify = (\<lambda>p h. Inr (p = ''pw'' \<or> p = ''R''))\<rparr>"

definition demo_env :: auth_lib_env where
  "demo_env = \<lparr>utc = (\<lambda>n i. 10), now_v7 = (\<lambda>n i. 100 + of_nat n), pg_link_at = (\<lambda>n. Pg_Up), pg_now = (\<lambda>n. 10),
     pg_show = (\<lambda>e. ''db''), jwt = demo_jwt, bcrypt = demo_bcrypt, task_at = (\<lambda>n. Completed)\<rparr>"

definition demo_settings :: auth_settings where
  "demo_settings = \<lparr>default_user_username = ''admin'', default_user_password = '''', default_user_email = '''',
     google_client_id = '''', jwt_secret = ''k'', jwt_issuer = ''i'', jwt_audience = ''a'',
     access_token_expiry_minutes = 15, refresh_token_expiry_days = 7, bcrypt_cost = 12,
     bcrypt_max_concurrent = 8, bcrypt_limiter = BcryptLimiter_new 8\<rparr>"

definition demo_world :: auth_world where
  "demo_world = \<lparr>tick = 0, db = ann_db, pw = \<lparr>ps_draws = 0, ps_dummies = [], ps_work = []\<rparr>\<rparr>"

definition demo_provider :: "auth_world auth_provider_port" where
  "demo_provider = \<lparr>ap_verify_id_token = (\<lambda>t. returnE \<lparr>gi_email = ''bob@x.io'', gi_name = ''Bob''\<rparr>)\<rparr>"

abbreviation demo_service :: jwt_service where
  "demo_service \<equiv> JwtServiceImpl_new ''k'' 15 7 ''i'' ''a''"

lemma demo_facts:
  "readable (db demo_world)"
  "bcrypt_text (bcrypt demo_env)"
  "read_only (ap_verify_id_token demo_provider t)"
  by (simp_all add: demo_world_def ann_db_readable bcrypt_text_def demo_env_def demo_bcrypt_def demo_provider_def
      read_only_simps)

lemma demo_calls:
  "\<not> isl (fst (login_with_password demo_env (postgres_user_repo demo_env) demo_service demo_settings ''ann'' ''pw'' demo_world))"
  "\<not> isl (fst (refresh_token demo_env (postgres_user_repo demo_env) demo_service ''R'' demo_settings demo_world))"
  "\<not> isl (fst (logout demo_env (postgres_user_repo demo_env) 1 5 demo_world))"
  "\<not> isl (fst (login_with_google demo_env (postgres_user_repo demo_env) demo_provider demo_service demo_settings ''g'' demo_world))"
  by code_simp+

text \<open>Two refreshes with one token that both read the account before either writes both succeed:
  nothing in the write checks that the session is still active.\<close>

lemma concurrent_refreshes_both_succeed:
  "case refresh_load demo_env (postgres_user_repo demo_env) demo_service ''R'' demo_world of
     (Inr x, w1) \<Rightarrow>
       (case refresh_load demo_env (postgres_user_repo demo_env) demo_service ''R'' w1 of
          (Inr y, w2) \<Rightarrow>
            (case refresh_save demo_env (postgres_user_repo demo_env) demo_service ''R'' demo_settings x w2 of
               (r, w3) \<Rightarrow>
                 \<not> isl r \<and>
                 \<not> isl (fst (refresh_save demo_env (postgres_user_repo demo_env) demo_service ''R'' demo_settings y w3)))
        | _ \<Rightarrow> False)
   | _ \<Rightarrow> False"
  by code_simp


section \<open>Properties\<close>

text \<open>
  C12.  A password login either fails and leaves the database as it was, or there is an account
  with that username whose stored hash the password verifies against, and exactly one
  session is added: a fresh one of that account, active, opened by password, holding a
  bcrypt hash at the configured cost.  A reported success carries that session's id and the
  refresh token the hash was made from, and announces the login in one event.
\<close>

theorem password_login_effect:
  assumes "readable (db w)" and "bcrypt_text (bcrypt E)"
    and "login_with_password E (postgres_user_repo E) js settings username password w = (r, w')"
  shows "(\<exists>e. r = Inl e) \<and> db w' = db w \<or>
         (\<exists>u hash ses. u \<in> known (db w) \<and> u_username u = Some username \<and> u_password_hash u = Some hash \<and>
            bc_verify (bcrypt E) password (hash_as_str hash) = Inr True \<and>
            readable (db w') \<and> known (db w') = known (db w) \<and>
            stored (db w') = insert ses (stored (db w)) \<and> s_id ses \<notin> s_id ` stored (db w) \<and>
            opened (bcrypt E) settings Password u ses \<and>
            (\<forall>lr. r = Inr lr \<longrightarrow> reported (bcrypt E) settings Password u ses lr))"
  using postgres_auth.login_with_password_effect [OF assms(3,1,2)] by blast

theorem password_login_effect_witness:
  "\<exists>w' ses. snd (login_with_password demo_env (postgres_user_repo demo_env) demo_service demo_settings ''ann'' ''pw'' demo_world) = w' \<and>
     stored (db w') = insert ses (stored ann_db) \<and> s_auth_method ses = Password"
proof -
  obtain r w' where call: "login_with_password demo_env (postgres_user_repo demo_env) demo_service demo_settings ''ann'' ''pw'' demo_world = (r, w')"
    by fastforce
  then have "\<not> isl r" using demo_calls(1) by simp
  then have "\<not> (\<exists>e. r = Inl e)" by auto
  with password_login_effect [OF demo_facts(1,2) call] call show ?thesis
    by (auto simp: opened_def demo_world_def)
qed

text \<open>
  C4.  A refresh has one of three outcomes.  It fails and changes nothing; or the presented
  token is accepted and verifies against the hash of a live session of its user, that one
  session is closed and one fresh session of the same user and login method is opened; or
  the token named a session that was already closed, and then every session of that user
  is closed and an error is returned.  No other session and no user changes.
\<close>

theorem refresh_effect:
  assumes "readable (db w)" and "bcrypt_text (bcrypt E)"
    and "refresh_token E (postgres_user_repo E) js token settings w = (r, w')"
  shows "(\<exists>e. r = Inl e \<and> e \<noteq> SessionInvalidated) \<and> db w' = db w \<or>
         (\<exists>claims w1. validate_refresh_token E js token w = (Inr claims, w1) \<and>
            readable (db w') \<and> known (db w') = known (db w) \<and>
            (rotated_to (bcrypt E) settings token claims (stored (db w)) (stored (db w')) r \<or>
             all_revoked claims (stored (db w)) (stored (db w')) r))"
  using postgres_auth.refresh_token_effect [OF assms(3,1,2)] by blast

theorem refresh_effect_witness:
  "\<exists>r w' claims. refresh_token demo_env (postgres_user_repo demo_env) demo_service ''R'' demo_settings demo_world = (r, w') \<and>
     rotated_to (bcrypt demo_env) demo_settings ''R'' claims (stored ann_db) (stored (db w')) r"
proof -
  obtain r w' where call: "refresh_token demo_env (postgres_user_repo demo_env) demo_service ''R'' demo_settings demo_world = (r, w')"
    by fastforce
  then have "\<not> isl r" using demo_calls(2) by simp
  then have no: "\<not> (\<exists>e. r = Inl e)" by auto
  with refresh_effect [OF demo_facts(1,2) call] call show ?thesis
    unfolding all_revoked_def demo_world_def by auto
qed

text \<open>
  C7.  A logout closes one active session of the user who asks and nothing else, or it fails
  and changes nothing: no user can close the session of another.
\<close>

theorem logout_own_session:
  fixes w :: "'z auth_world_scheme"
  assumes "readable (db w)" and "logout E (postgres_user_repo E) user_id session_id w = (r, w')"
  shows "(\<exists>e. r = Inl e) \<and> db w' = db w \<or>
         (\<exists>ses \<in> stored (db w). s_id ses = session_id \<and> s_user_id ses = user_id \<and> s_is_active ses \<and>
            readable (db w') \<and> known (db w') = known (db w) \<and> stored (db w') = off {session_id} (stored (db w)) \<and>
            (\<forall>es. r = Inr es \<longrightarrow> (\<exists>t. es = [UserLoggedOut (UserLoggedOut_new t user_id session_id (s_auth_method ses))])))"
  using postgres_auth.logout_effect [OF assms(2,1)] by blast

theorem logout_own_session_witness:
  "stored (db (snd (logout demo_env (postgres_user_repo demo_env) 1 5 demo_world))) = off {5} (stored ann_db)"
proof -
  obtain r w' where call: "logout demo_env (postgres_user_repo demo_env) 1 5 demo_world = (r, w')" by fastforce
  then have "\<not> isl r" using demo_calls(3) by simp
  then have "\<not> (\<exists>e. r = Inl e)" by auto
  with logout_own_session [OF demo_facts(1) call] call show ?thesis by (auto simp: demo_world_def)
qed

text \<open>
  C13.  A Google login works on the account that holds the address the provider vouched for, or
  registers a new account with that address, without a password, under a fresh id.  It adds
  at most one session, a fresh active one of that account opened through Google; a reported
  success names account and session and says truly whether the account is new, and the
  registration is announced before the login.
\<close>

theorem google_login_effect:
  assumes "readable (db w)" and "bcrypt_text (bcrypt E)" and "read_only (ap_verify_id_token P id_token)"
    and "login_with_google E (postgres_user_repo E) P js settings id_token w = (r, w')"
  shows "(\<exists>e. r = Inl e) \<and> db w' = db w \<or>
         (\<exists>info w1 u. ap_verify_id_token P id_token w = (Inr info, w1) \<and> readable (db w') \<and>
            account info u (known (db w)) (known (db w')) \<and>
            ((\<exists>e. r = Inl e) \<and> stored (db w') = stored (db w) \<or>
             (\<exists>ses. stored (db w') = insert ses (stored (db w)) \<and> s_id ses \<notin> s_id ` stored (db w) \<and>
                opened (bcrypt E) settings GoogleOAuth u ses \<and>
                (\<forall>lr. r = Inr lr \<longrightarrow> google_reported (bcrypt E) settings u ses (u \<notin> known (db w)) lr))))"
  using postgres_auth.login_with_google_effect [OF assms(4,1,2,3)] by blast

theorem google_login_effect_witness:
  "\<exists>u ses. let w' = snd (login_with_google demo_env (postgres_user_repo demo_env) demo_provider demo_service demo_settings ''g'' demo_world)
     in account \<lparr>gi_email = ''bob@x.io'', gi_name = ''Bob''\<rparr> u (known ann_db) (known (db w')) \<and>
        stored (db w') = insert ses (stored ann_db)"
proof -
  obtain r w' where call: "login_with_google demo_env (postgres_user_repo demo_env) demo_provider demo_service demo_settings ''g'' demo_world = (r, w')"
    by fastforce
  then have "\<not> isl r" using demo_calls(4) by simp
  then have no: "\<not> (\<exists>e. r = Inl e)" by auto
  have info: "ap_verify_id_token demo_provider ''g'' demo_world = (Inr \<lparr>gi_email = ''bob@x.io'', gi_name = ''Bob''\<rparr>, demo_world)"
    by (simp add: demo_provider_def returnE_def)
  from google_login_effect [OF demo_facts call] no
  obtain info w1 u ses where "ap_verify_id_token demo_provider ''g'' demo_world = (Inr info, w1)"
      "account info u (known (db demo_world)) (known (db w'))" "stored (db w') = insert ses (stored (db demo_world))"
    by blast
  moreover have "db demo_world = ann_db" by (simp add: demo_world_def)
  moreover have "info = \<lparr>gi_email = ''bob@x.io'', gi_name = ''Bob''\<rparr>" using calculation(1) info by simp
  ultimately show ?thesis
    using call by (intro exI [of _ u] exI [of _ ses]) (simp only: Let_def snd_conv)
qed



text \<open>
  C11.  Nothing revoked comes back, over every run of calls: a session that was closed is there
  unchanged and still closed, a session that was open is there open or closed with all its
  other data unchanged, no user is lost or altered, and no session id is given twice.
\<close>

theorem nothing_revoked_comes_back:
  assumes "readable (db w)" and "bcrypt_text (bcrypt E)" and "\<forall>id_token. read_only (ap_verify_id_token P id_token)"
    and "w' = after_calls E P js settings cs w"
  shows "(\<forall>s \<in> stored (db w). \<not> s_is_active s \<longrightarrow> s \<in> stored (db w')) \<and>
         (\<forall>s \<in> stored (db w). s \<in> stored (db w') \<or> invalidate s \<in> stored (db w')) \<and>
         known (db w) \<subseteq> known (db w') \<and> inj_on s_id (stored (db w'))"
proof -
  have "book_run (verified_by E) (book_of (db w)) (book_of (db w'))"
    using calls_refine [OF assms(1-3)] by (simp add: refines_def assms(4))
  moreover have "ids_unique (book_of (db w))" using stored_unique [OF assms(1)] by (simp add: ids_unique_def)
  ultimately have keeps: "ids_unique (book_of (db w')) \<and> extends_book (book_of (db w)) (book_of (db w'))"
    by (rule run_keeps)
  then have "s \<in> stored (db w')" if "s \<in> stored (db w)" "\<not> s_is_active s" for s
  proof -
    have "s \<in> stored (db w') \<or> invalidate s \<in> stored (db w')" using keeps that(1) by (simp add: extends_book_def)
    then show ?thesis by (simp add: invalidate_inactive [OF that(2)])
  qed
  with keeps show ?thesis by (simp add: extends_book_def ids_unique_def)
qed

theorem nothing_revoked_comes_back_witness:
  "known ann_db \<subseteq> known (db (after_calls demo_env demo_provider demo_service demo_settings
     [Refresh_Call ''R'', Refresh_Call ''R'', Logout_Call 1 5] demo_world))"
  using nothing_revoked_comes_back [OF demo_facts(1,2) _ refl, of demo_provider demo_service demo_settings
      "[Refresh_Call ''R'', Refresh_Call ''R'', Logout_Call 1 5]"] demo_facts(3)
  by (simp add: demo_world_def)

end
