(* ===== verification/Google_Provider.thy ===== *)
theory Google_Provider
  imports Auth_Spec
begin

text \<open>
  The identity provider: \<open>crates/auth/src/adapters/google_auth_provider.rs\<close>.  The cache of
  Google's key set with its expiry and its fallback to a stale set, the parsing of the
  Cache-Control header, and the verification of an ID token.  The HTTP client and the
  jsonwebtoken crate (key sets, headers, RS256) are parameters.
\<close>

section \<open>The parameters\<close>

record google_claims =
  gc_sub :: string
  gc_email :: "string option"
  gc_email_verified :: "bool option"
  gc_name :: "string option"
  gc_iss :: string
  gc_aud :: string
  gc_exp :: int
  gc_iat :: int

text \<open>
  \<open>decode_header\<close> (the key id of a readable header), \<open>JwkSet::find\<close>, \<open>DecodingKey::from_jwk\<close>
  and \<open>decode::<GoogleClaims>\<close> at a clock reading in seconds.
\<close>

record ('j, 'k, 'd) google_lib =
  header_kid :: "string \<Rightarrow> string option option"
  jwks_find :: "'j \<Rightarrow> string \<Rightarrow> 'k option"
  from_jwk :: "'k \<Rightarrow> 'd option"
  rs256_decode :: "'d \<Rightarrow> validation \<Rightarrow> int \<Rightarrow> string \<Rightarrow> google_claims option"

text \<open>What the crate documents of a decoded token: issuer and audience are accepted ones and it has
  not expired beyond the leeway.\<close>

definition google_laws :: "('j, 'k, 'd) google_lib \<Rightarrow> bool" where
  "google_laws L \<longleftrightarrow>
     (\<forall>d v now t c. rs256_decode L d v now t = Some c \<longrightarrow>
        gc_iss c \<in> set (va_issuer v) \<and> gc_aud c \<in> set (va_audience v) \<and> now - va_leeway v \<le> gc_exp c)"

text \<open>One GET of the key set: no response, or the Cache-Control header (as far as it is visible
  ASCII) and the body, which may not parse.\<close>

datatype 'j fetched = No_Response | Response "string option" "'j option"

record ('j, 'k, 'd) google_env = auth_lib_env +
  google :: "('j, 'k, 'd) google_lib"
  instant :: "nat \<Rightarrow> nat \<Rightarrow> time"
  google_get :: "nat \<Rightarrow> 'j fetched"

record 'j cached_jwks =
  cj_jwks :: 'j
  cj_expires_at :: time

record 'j google_world = auth_world +
  jwks_cache :: "'j cached_jwks option"


section \<open>The key set\<close>

definition DEFAULT_JWKS_TTL :: u64 where
  "DEFAULT_JWKS_TTL = 3600"

text \<open>\<open>Iterator::find_map\<close>.\<close>

fun find_map :: "('a \<Rightarrow> 'b option) \<Rightarrow> 'a list \<Rightarrow> 'b option" where
  "find_map f [] = None"
| "find_map f (x # xs) = (case f x of Some y \<Rightarrow> Some y | None \<Rightarrow> find_map f xs)"

definition max_age_directive :: "string \<Rightarrow> u64 option" where
  "max_age_directive directive =
     (case split_once CHR ''='' (trim directive) of
        None \<Rightarrow> None
      | Some (name, val) \<Rightarrow> if eq_ignore_ascii_case name ''max-age'' then parse_u64 (trim val) else None)"

definition parse_max_age :: "string \<Rightarrow> u64 option" where
  "parse_max_age cache_control = find_map max_age_directive (split_char CHR '','' cache_control)"

definition fetch_jwks_from_google :: "'j fetched \<Rightarrow> auth_error + ('j \<times> u64)" where
  "fetch_jwks_from_google response =
     (case response of
        No_Response \<Rightarrow> Inl TokenVerificationFailed
      | Response cache_control body \<Rightarrow>
          let ttl = (case Option.bind cache_control parse_max_age of Some t \<Rightarrow> t | None \<Rightarrow> DEFAULT_JWKS_TTL)
          in (case body of None \<Rightarrow> Inl TokenVerificationFailed | Some jwks \<Rightarrow> Inr (jwks, ttl)))"

text \<open>
  \<open>Instant + Duration\<close> panics (None) when the sum has no representation: an instant is a
  signed 64-bit number of seconds.
\<close>

definition instant_add :: "time \<Rightarrow> u64 \<Rightarrow> time option" where
  "instant_add now ttl = (if now + secs (uint ttl) < secs (2 ^ 63) then Some (now + secs (uint ttl)) else None)"

text \<open>One call: None is a panic.  The result comes with the cache after the call, and with whether
  Google was asked.\<close>

definition get_or_fetch ::
  "(nat \<Rightarrow> time) \<Rightarrow> 'j fetched \<Rightarrow> 'j cached_jwks option \<Rightarrow> (auth_error + 'j) option \<times> 'j cached_jwks option" where
  "get_or_fetch clk response cache =
     (case cache of
        Some c \<Rightarrow>
          if cj_expires_at c > clk 0 then (Some (Inr (cj_jwks c)), cache)
          else (case fetch_jwks_from_google response of
                  Inr (jwks, ttl) \<Rightarrow>
                    (case instant_add (clk 1) ttl of
                       None \<Rightarrow> (None, cache)
                     | Some t \<Rightarrow> (Some (Inr jwks), Some \<lparr>cj_jwks = jwks, cj_expires_at = t\<rparr>))
                | Inl e \<Rightarrow> (Some (Inr (cj_jwks c)), cache))
      | None \<Rightarrow>
          (case fetch_jwks_from_google response of
             Inr (jwks, ttl) \<Rightarrow>
               (case instant_add (clk 1) ttl of
                  None \<Rightarrow> (None, None)
                | Some t \<Rightarrow> (Some (Inr jwks), Some \<lparr>cj_jwks = jwks, cj_expires_at = t\<rparr>))
           | Inl e \<Rightarrow> (Some (Inl e), None)))"

text \<open>A panic ends the request without an answer; to the caller of the port it is an error of its
  own.\<close>

definition panicked :: auth_error where
  "panicked = InternalError ''task panicked''"

definition get_jwks ::
  "('j, 'k, 'd, 'e) google_env_scheme \<Rightarrow> (('j, 'z) google_world_scheme, auth_error, 'j) eff" where
  "get_jwks E w =
     (case get_or_fetch (instant E (tick w)) (google_get E (tick w)) (jwks_cache w) of
        (r, cache) \<Rightarrow> (case r of Some x \<Rightarrow> x | None \<Rightarrow> Inl panicked, (next_tick w)\<lparr>jwks_cache := cache\<rparr>))"


section \<open>The ID token\<close>

record google_auth_provider =
  gp_client_id :: string

definition validate_google_claims :: "google_claims \<Rightarrow> auth_error + google_user_info" where
  "validate_google_claims claims =
     bindR (ok_or TokenVerificationFailed (gc_email claims)) (\<lambda>email.
       if gc_email_verified claims \<noteq> Some True then Inl TokenVerificationFailed
       else Inr \<lparr>gi_email = email, gi_name = (case gc_name claims of Some n \<Rightarrow> n | None \<Rightarrow> email)\<rparr>)"

definition google_validation :: "google_auth_provider \<Rightarrow> validation" where
  "google_validation P =
     \<lparr>va_issuer = [''https://accounts.google.com'', ''accounts.google.com''], va_audience = [gp_client_id P],
      va_required = [''sub'', ''email'', ''iss'', ''aud''], va_leeway = 60\<rparr>"

definition verify_id_token ::
  "('j, 'k, 'd, 'e) google_env_scheme \<Rightarrow> google_auth_provider \<Rightarrow> string
   \<Rightarrow> (('j, 'z) google_world_scheme, auth_error, google_user_info) eff" where
  "verify_id_token E P token =
     bindE (get_jwks E) (\<lambda>jwks.
     bindE (liftE (ok_or TokenVerificationFailed (header_kid (google E) token))) (\<lambda>header.
     bindE (liftE (ok_or TokenVerificationFailed header)) (\<lambda>kid.
     bindE (liftE (ok_or TokenVerificationFailed (jwks_find (google E) jwks kid))) (\<lambda>jwk.
     bindE (liftE (ok_or TokenVerificationFailed (from_jwk (google E) jwk))) (\<lambda>decoding_key.
     bindE (nowE E) (\<lambda>now.
     bindE (liftE (ok_or TokenVerificationFailed
              (rs256_decode (google E) decoding_key (google_validation P) (timestamp now) token))) (\<lambda>claims.
     liftE (validate_google_claims claims))))))))"

definition GoogleAuthProvider_port ::
  "('j, 'k, 'd, 'e) google_env_scheme \<Rightarrow> google_auth_provider \<Rightarrow> ('j, 'z) google_world_scheme auth_provider_port" where
  "GoogleAuthProvider_port E P = \<lparr>ap_verify_id_token = verify_id_token E P\<rparr>"



section \<open>Facts\<close>

lemma read_only_get_jwks [keeps, intro]: "read_only (get_jwks E)"
  by (simp add: read_only_def get_jwks_def next_tick_def split: prod.split)

lemma read_only_verify_id_token [keeps, intro]: "read_only (verify_id_token E P token)"
  unfolding verify_id_token_def by (intro read_only_bindE read_only_get_jwks read_only_simps)

lemma google_port_read_only: "read_only (ap_verify_id_token (GoogleAuthProvider_port E P) token)"
  by (simp add: GoogleAuthProvider_port_def read_only_verify_id_token)

lemma validate_google_claims_Inr:
  "validate_google_claims c = Inr info \<longleftrightarrow>
     gc_email c = Some (gi_email info) \<and> gc_email_verified c = Some True \<and>
     gi_name info = (case gc_name c of Some n \<Rightarrow> n | None \<Rightarrow> gi_email info)"
  by (cases info) (auto simp: validate_google_claims_def bindR_eq_Inr split: option.split)

lemma get_or_fetch_kept:
  assumes "clk 0 < cj_expires_at c \<or> isl (fetch_jwks_from_google response)"
  shows "get_or_fetch clk response (Some c) = (Some (Inr (cj_jwks c)), Some c)"
  using assms by (auto simp: get_or_fetch_def split: sum.split)

lemma get_or_fetch_served:
  "get_or_fetch clk response cache = (Some (Inr jwks), cache') \<Longrightarrow> \<exists>c. cache' = Some c \<and> cj_jwks c = jwks"
  by (auto simp: get_or_fetch_def split: option.splits sum.splits if_splits)

text \<open>The answers of a sequence of calls, each with its clock and the response it would get.\<close>

fun jwks_run ::
  "((nat \<Rightarrow> time) \<times> 'j fetched) list \<Rightarrow> 'j cached_jwks option \<Rightarrow> (auth_error + 'j) option list" where
  "jwks_run [] cache = []"
| "jwks_run ((clk, response) # calls) cache =
     (case get_or_fetch clk response cache of (r, cache') \<Rightarrow> r # jwks_run calls cache')"

lemma jwks_run_kept:
  assumes "\<forall>(clk, response) \<in> set calls. clk 0 < cj_expires_at c \<or> isl (fetch_jwks_from_google response)"
  shows "set (jwks_run calls (Some c)) \<subseteq> {Some (Inr (cj_jwks c))}"
  using assms by (induction calls) (auto simp: get_or_fetch_kept)


section \<open>Properties\<close>


text \<open>
  C38.  Logins survive an outage of Google: once a key set was served, every later call gets that
  set, without an error, as long as the set has not expired or the attempts to replace it
  fail; and the first attempt after the expiry that succeeds replaces it.
\<close>

theorem jwks_outage_tolerated:
  assumes "get_or_fetch clk response cache = (Some (Inr jwks), Some c)"
    and "\<forall>(clk, response) \<in> set calls. clk 0 < cj_expires_at c \<or> isl (fetch_jwks_from_google response)"
  shows "set (jwks_run calls (Some c)) \<subseteq> {Some (Inr jwks)} \<and>
         (cj_expires_at c \<le> clk' 0 \<longrightarrow> fetch_jwks_from_google response' = Inr (jwks', ttl) \<longrightarrow>
          instant_add (clk' 1) ttl = Some t \<longrightarrow>
          get_or_fetch clk' response' (Some c) = (Some (Inr jwks'), Some \<lparr>cj_jwks = jwks', cj_expires_at = t\<rparr>))"
proof -
  have "cj_jwks c = jwks" using get_or_fetch_served [OF assms(1)] by simp
  then show ?thesis using jwks_run_kept [OF assms(2)] by (simp add: get_or_fetch_def)
qed

lemma sample_max_age:
  "parse_max_age ''public, Max-Age= 60'' = Some 60"
  "parse_max_age ''max-age=18446744073709551615'' = Some (- 1)"
proof -
  have "split_char CHR '','' ''public, Max-Age= 60'' = [''public'', '' Max-Age= 60'']"
    "split_char CHR '','' ''max-age=18446744073709551615'' = [''max-age=18446744073709551615'']" by code_simp+
  moreover have "split_once CHR ''='' (trim ''public'') = None"
    "split_once CHR ''='' (trim '' Max-Age= 60'') = Some (''Max-Age'', '' 60'')"
    "split_once CHR ''='' (trim ''max-age=18446744073709551615'') = Some (''max-age'', ''18446744073709551615'')"
    "eq_ignore_ascii_case ''Max-Age'' ''max-age''" "eq_ignore_ascii_case ''max-age'' ''max-age''"
    "trim '' 60'' = ''60''" "trim ''18446744073709551615'' = ''18446744073709551615''" by code_simp+
  ultimately show "parse_max_age ''public, Max-Age= 60'' = Some 60"
    "parse_max_age ''max-age=18446744073709551615'' = Some (- 1)"
    by (simp_all add: parse_max_age_def max_age_directive_def parse_u64_def parse_unsigned_def to_digit_def)
qed

theorem jwks_outage_tolerated_witness:
  "set (jwks_run [(\<lambda>_. secs 30, No_Response), (\<lambda>_. secs 90, No_Response)]
     (snd (get_or_fetch (\<lambda>_. 0) (Response (Some ''public, Max-Age= 60'') (Some ''keys'')) None)))
     \<subseteq> {Some (Inr ''keys'')}"
proof -
  have g: "get_or_fetch (\<lambda>_. 0) (Response (Some ''public, Max-Age= 60'') (Some ''keys'')) None
             = (Some (Inr ''keys''), Some \<lparr>cj_jwks = ''keys'', cj_expires_at = secs 60\<rparr>)"
    by (simp add: get_or_fetch_def fetch_jwks_from_google_def sample_max_age(1) [simplified] instant_add_def secs_def)
  show ?thesis
    unfolding g snd_conv
    by (rule jwks_outage_tolerated [OF g, THEN conjunct1]) (simp add: fetch_jwks_from_google_def secs_def)
qed

text \<open>A response can make the cache panic: the sum of the clock and an extreme max-age has no
  representation.\<close>

lemma jwks_max_age_panics:
  "get_or_fetch (\<lambda>_. 0) (Response (Some ''max-age=18446744073709551615'') (Some jwks)) None = (None, None)"
  by (simp add: get_or_fetch_def fetch_jwks_from_google_def sample_max_age(2) [simplified] instant_add_def secs_def
        unsigned_minus_1_eq_mask mask_eq_exp_minus_1)

definition sample_google_lib :: "(unit, unit, unit) google_lib" where
  "sample_google_lib =
     \<lparr>header_kid = (\<lambda>t. Some (Some ''kid'')), jwks_find = (\<lambda>j k. Some ()), from_jwk = Some,
      rs256_decode = (\<lambda>d v now t.
        if ''accounts.google.com'' \<in> set (va_issuer v) \<and> ''client'' \<in> set (va_audience v) \<and> now - va_leeway v \<le> 1000
        then Some \<lparr>gc_sub = ''s'', gc_email = Some ''bob@x.io'', gc_email_verified = Some True, gc_name = None,
                   gc_iss = ''accounts.google.com'', gc_aud = ''client'', gc_exp = 1000, gc_iat = 0\<rparr>
        else None)\<rparr>"

definition sample_google_env :: "(unit, unit, unit) google_env" where
  "sample_google_env = auth_lib_env.extend demo_env
     (google_env.fields sample_google_lib (\<lambda>n i. 0) (\<lambda>n. Response None (Some ())))"

definition sample_google_world :: "unit google_world" where
  "sample_google_world = auth_world.extend demo_world (google_world.fields None)"


end
