(* ===== verification/Profiles.thy ===== *)
theory Profiles
  imports User_Repo Jwt
begin

text \<open>
  The profiles crate, \<open>crates/profiles\<close>: the value objects with their limits, the two use
  cases, the PostgreSQL repository and the two handlers.  The text forms of ids and
  timestamps are parameters.
\<close>

section \<open>Value objects, entity and errors\<close>

datatype profile_error =
    Profile_NotFound uuid
  | Profile_InvalidValue string
  | Profile_InternalError string

definition MAX_URL_LEN :: nat where "MAX_URL_LEN = 500"
definition MAX_BIO_LEN :: nat where "MAX_BIO_LEN = 2000"

datatype avatar_url = AvatarUrl (avatar_as_str: string)
datatype bio = Bio (bio_as_str: string)

definition AvatarUrl_new :: "string \<Rightarrow> string + avatar_url" where
  "AvatarUrl_new val =
     (let trimmed = trim val
      in if trimmed = [] then Inl ''Avatar URL must not be empty''
         else if length trimmed > MAX_URL_LEN then Inl ''Avatar URL must not exceed 500 characters''
         else Inr (AvatarUrl trimmed))"

definition Bio_new :: "string \<Rightarrow> string + bio" where
  "Bio_new val =
     (let trimmed = trim val
      in if trimmed = [] then Inl ''Bio must not be empty''
         else if length trimmed > MAX_BIO_LEN then Inl ''Bio must not exceed 2000 characters''
         else Inr (Bio trimmed))"

record user_profile =
  pf_user_id :: uuid
  pf_avatar_url :: "avatar_url option"
  pf_bio :: "bio option"
  pf_updated_at :: time

definition UserProfile_new :: "uuid \<Rightarrow> avatar_url option \<Rightarrow> bio option \<Rightarrow> time \<Rightarrow> user_profile" where
  "UserProfile_new user_id avatar_url bio updated_at =
     \<lparr>pf_user_id = user_id, pf_avatar_url = avatar_url, pf_bio = bio, pf_updated_at = updated_at\<rparr>"


section \<open>The port and the use cases\<close>

record 'w profile_repository =
  pr_find_by_user_id :: "uuid \<Rightarrow> ('w, profile_error, user_profile option) eff"
  pr_upsert :: "user_profile \<Rightarrow> ('w, profile_error, unit) eff"

definition get_profile :: "'w profile_repository \<Rightarrow> uuid \<Rightarrow> ('w, profile_error, user_profile) eff" where
  "get_profile repo user_id =
     bindE (pr_find_by_user_id repo user_id) (\<lambda>found. liftE (ok_or (Profile_NotFound user_id) found))"

text \<open>A field of the request: absent keeps the old value, empty clears it, anything else is checked.\<close>

definition requested ::
  "(string \<Rightarrow> string + 'v) \<Rightarrow> string \<Rightarrow> string option \<Rightarrow> 'v option \<Rightarrow> profile_error + 'v option" where
  "requested new_value label req old =
     (case req of
        Some val \<Rightarrow>
          if val = [] then Inr None
          else bindR (map_err (\<lambda>e. Profile_InvalidValue (''Invalid '' @ label @ '': '' @ e)) (new_value val)) (\<lambda>v. Inr (Some v))
      | None \<Rightarrow> Inr old)"

definition update_profile ::
  "('e) env_scheme \<Rightarrow> 'z world_scheme profile_repository \<Rightarrow> uuid \<Rightarrow> string option \<Rightarrow> string option
   \<Rightarrow> ('z world_scheme, profile_error, user_profile) eff" where
  "update_profile E repo user_id avatar_url bio =
     (if avatar_url = None \<and> bio = None
      then throwE (Profile_InvalidValue ''At least one field must be provided'')
      else
        bindE (pr_find_by_user_id repo user_id) (\<lambda>existing.
        bindE (liftE (requested AvatarUrl_new ''avatar_url'' avatar_url (Option.bind existing pf_avatar_url))) (\<lambda>avatar_url.
        bindE (liftE (requested Bio_new ''bio'' bio (Option.bind existing pf_bio))) (\<lambda>bio.
        bindE (nowE E) (\<lambda>now.
        let profile = UserProfile_new user_id avatar_url bio now
        in bindE (pr_upsert repo profile) (\<lambda>_. returnE profile))))))"


section \<open>The PostgreSQL repository\<close>

definition profile_queryE :: "('e) env_scheme \<Rightarrow> 'a statement \<Rightarrow> ('z world_scheme, profile_error, 'a) eff" where
  "profile_queryE E f = map_errE (\<lambda>e. Profile_InternalError (pg_show E e)) (stmtE E f)"

text \<open>\<open>filter(|s| !s.is_empty()).and_then(|s| new(s).ok())\<close>.\<close>

definition readable_value :: "(string \<Rightarrow> string + 'v) \<Rightarrow> string option \<Rightarrow> 'v option" where
  "readable_value new_value col =
     (case col of
        None \<Rightarrow> None
      | Some s \<Rightarrow> if s = [] then None else (case new_value s of Inr v \<Rightarrow> Some v | Inl e \<Rightarrow> None))"

definition into_profile :: "profile_row \<Rightarrow> user_profile" where
  "into_profile r =
     UserProfile_new (prf_user_id r) (readable_value AvatarUrl_new (prf_avatar_url r))
       (readable_value Bio_new (prf_bio r)) (prf_updated_at r)"

definition find_by_user_id ::
  "('e) env_scheme \<Rightarrow> uuid \<Rightarrow> ('z world_scheme, profile_error, user_profile option) eff" where
  "find_by_user_id E user_id =
     bindE (profile_queryE E (select_profile user_id)) (\<lambda>row. returnE (map_option into_profile row))"

definition upsert :: "('e) env_scheme \<Rightarrow> user_profile \<Rightarrow> ('z world_scheme, profile_error, unit) eff" where
  "upsert E profile =
     profile_queryE E (upsert_profile
       \<lparr>prf_user_id = pf_user_id profile, prf_avatar_url = map_option avatar_as_str (pf_avatar_url profile),
        prf_bio = map_option bio_as_str (pf_bio profile), prf_updated_at = pf_updated_at profile\<rparr>)"

definition postgres_profile_repo :: "('e) env_scheme \<Rightarrow> 'z world_scheme profile_repository" where
  "postgres_profile_repo E = \<lparr>pr_find_by_user_id = find_by_user_id E, pr_upsert = upsert E\<rparr>"


section \<open>The handlers\<close>

record profile_response =
  pq_user_id :: string
  pq_avatar_url :: "string option"
  pq_bio :: "string option"
  pq_updated_at :: string

definition profile_to_response :: "api_text \<Rightarrow> user_profile \<Rightarrow> profile_response" where
  "profile_to_response T profile =
     \<lparr>pq_user_id = at_uuid T (pf_user_id profile), pq_avatar_url = map_option avatar_as_str (pf_avatar_url profile),
      pq_bio = map_option bio_as_str (pf_bio profile), pq_updated_at = at_rfc3339 T (pf_updated_at profile)\<rparr>"

definition get_profile_handler ::
  "api_text \<Rightarrow> 'w profile_repository \<Rightarrow> authenticated_user \<Rightarrow> 'w \<Rightarrow> profile_response response \<times> 'w" where
  "get_profile_handler T repo auth_user w =
     (case get_profile repo (au_user_id auth_user) w of
        (Inr profile, w1) \<Rightarrow> (Json_Response 200 (profile_to_response T profile), w1)
      | (Inl (Profile_NotFound _), w1) \<Rightarrow> (Error_Response 404 ''Profile not found'', w1)
      | (Inl _, w1) \<Rightarrow> (Error_Response 500 ''Internal server error'', w1))"

record update_profile_request =
  up_avatar_url :: "string option"
  up_bio :: "string option"

definition update_profile_handler ::
  "('e) env_scheme \<Rightarrow> api_text \<Rightarrow> 'z world_scheme profile_repository \<Rightarrow> authenticated_user \<Rightarrow> update_profile_request
   \<Rightarrow> 'z world_scheme \<Rightarrow> profile_response response \<times> 'z world_scheme" where
  "update_profile_handler E T repo auth_user req w =
     (case update_profile E repo (au_user_id auth_user) (up_avatar_url req) (up_bio req) w of
        (Inr profile, w1) \<Rightarrow> (Json_Response 200 (profile_to_response T profile), w1)
      | (Inl (Profile_InvalidValue msg), w1) \<Rightarrow> (Error_Response 400 msg, w1)
      | (Inl _, w1) \<Rightarrow> (Error_Response 500 ''Internal server error'', w1))"


section \<open>The contract of the repository\<close>

text \<open>A profile as its constructors let it through.\<close>

definition profile_ok :: "user_profile \<Rightarrow> bool" where
  "profile_ok p \<longleftrightarrow>
     (\<forall>a. pf_avatar_url p = Some a \<longrightarrow> AvatarUrl_new (avatar_as_str a) = Inr a) \<and>
     (\<forall>b. pf_bio p = Some b \<longrightarrow> Bio_new (bio_as_str b) = Inr b)"

lemma AvatarUrl_new_idem: "AvatarUrl_new s = Inr a \<Longrightarrow> AvatarUrl_new (avatar_as_str a) = Inr a"
  by (auto simp: AvatarUrl_new_def Let_def trim_idem split: if_splits)

lemma Bio_new_idem: "Bio_new s = Inr b \<Longrightarrow> Bio_new (bio_as_str b) = Inr b"
  by (auto simp: Bio_new_def Let_def trim_idem split: if_splits)

lemma requested_Inr:
  assumes "requested new_value label req old = Inr v" and "\<And>x. old = Some x \<Longrightarrow> P x"
    and "\<And>s x. new_value s = Inr x \<Longrightarrow> P x"
  shows "v = Some x \<Longrightarrow> P x"
  using assms by (auto simp: requested_def bindR_eq_Inr split: option.splits if_splits)

text \<open>A request field that its constructor refuses.\<close>

definition malformed :: "(string \<Rightarrow> string + 'v) \<Rightarrow> string option \<Rightarrow> bool" where
  "malformed new_value req \<longleftrightarrow> (case req of None \<Rightarrow> False | Some val \<Rightarrow> val \<noteq> [] \<and> isl (new_value val))"

lemma requested_malformed: "malformed new_value req \<Longrightarrow> requested new_value label req old \<noteq> Inr v"
  by (auto simp: requested_def malformed_def isl_def bindR_def map_err_def split: option.splits)

locale profile_store =
  fixes R :: "'z world_scheme profile_repository"
    and profile_of :: "database \<Rightarrow> uuid \<Rightarrow> user_profile option"
  assumes found_ok: "profile_of d uid = Some p \<Longrightarrow> profile_ok p \<and> pf_user_id p = uid"
    and find_reads: "pr_find_by_user_id R uid w = (q, w') \<Longrightarrow>
      db w' = db w \<and> (\<forall>x. q = Inr x \<longrightarrow> x = profile_of (db w) uid) \<and> (\<forall>msg. q \<noteq> Inl (Profile_InvalidValue msg))"
    and upsert_writes: "\<lbrakk>profile_ok p; pr_upsert R p w = (u, w')\<rbrakk> \<Longrightarrow>
      (profile_of (db w') = (profile_of (db w))(pf_user_id p \<mapsto> p) \<or> (\<exists>e. u = Inl e) \<and> db w' = db w) \<and>
      (\<forall>msg. u \<noteq> Inl (Profile_InvalidValue msg))"
begin

text \<open>The value a request asks for.\<close>

lemma update_outcome:
  assumes "update_profile E R uid avatar bio w = (r, w')"
  shows "(\<exists>e. r = Inl e) \<and> db w' = db w \<or>
         (\<exists>p. profile_of (db w') = (profile_of (db w))(uid \<mapsto> p) \<and> pf_user_id p = uid \<and>
            requested AvatarUrl_new ''avatar_url'' avatar (Option.bind (profile_of (db w) uid) pf_avatar_url) = Inr (pf_avatar_url p) \<and>
            requested Bio_new ''bio'' bio (Option.bind (profile_of (db w) uid) pf_bio) = Inr (pf_bio p) \<and>
            (r = Inr p \<or> (\<exists>e. r = Inl e \<and> (\<forall>msg. e \<noteq> Profile_InvalidValue msg))))"
proof (cases "avatar = None \<and> bio = None")
  case True
  with assms show ?thesis by (auto simp: update_profile_def)
next
  case False
  let ?old = "profile_of (db w) uid"
  let ?a = "requested AvatarUrl_new ''avatar_url'' avatar (Option.bind ?old pf_avatar_url)"
  let ?b = "requested Bio_new ''bio'' bio (Option.bind ?old pf_bio)"
  obtain q w1 where q: "pr_find_by_user_id R uid w = (q, w1)" by fastforce
  note f = find_reads [OF q]
  show ?thesis
  proof (cases "\<exists>a b. q = Inr ?old \<and> ?a = Inr a \<and> ?b = Inr b")
    case False
    with assms \<open>\<not> (avatar = None \<and> bio = None)\<close> q f show ?thesis
      by (cases q; cases ?a; cases ?b) (auto simp: update_profile_def bindE_def liftE_def)
  next
    case True
    then obtain a b where ab: "q = Inr ?old" "?a = Inr a" "?b = Inr b" by (elim exE conjE)
    let ?p = "UserProfile_new uid a b (utc E (tick w1) 0)"
    have "profile_ok ?p"
      unfolding profile_ok_def
    proof (intro conjI allI impI)
      show "AvatarUrl_new (avatar_as_str x) = Inr x" if "pf_avatar_url ?p = Some x" for x
        by (rule requested_Inr [OF ab(2) _ AvatarUrl_new_idem])
           (use that found_ok in \<open>auto simp: UserProfile_new_def bind_eq_Some_conv profile_ok_def\<close>)
      show "Bio_new (bio_as_str x) = Inr x" if "pf_bio ?p = Some x" for x
        by (rule requested_Inr [OF ab(3) _ Bio_new_idem])
           (use that found_ok in \<open>auto simp: UserProfile_new_def bind_eq_Some_conv profile_ok_def\<close>)
    qed
    moreover obtain u w2 where u: "pr_upsert R ?p (next_tick w1) = (u, w2)" by fastforce
    moreover have "db (next_tick w1) = db w" using f by (simp add: next_tick_def)
    ultimately have up: "(profile_of (db w2) = (profile_of (db w))(uid \<mapsto> ?p) \<or> (\<exists>e. u = Inl e) \<and> db w2 = db w) \<and>
        (\<forall>msg. u \<noteq> Inl (Profile_InvalidValue msg))"
      using upsert_writes [of ?p "next_tick w1" u w2] by (simp add: UserProfile_new_def)
    have k: "bindE (pr_upsert R ?p) (\<lambda>_. returnE ?p) (next_tick w1) = (r, w')"
      using assms False \<open>\<not> (avatar = None \<and> bio = None)\<close> q ab
      by (simp add: update_profile_def bindE_Inr nowE_def bindE_def [of "nowE E"] Let_def)
    then have "w' = w2 \<and> (case u of Inl e \<Rightarrow> r = Inl e | Inr _ \<Rightarrow> r = Inr ?p)"
      using u by (cases u) (auto simp: bindE_def)
    with up ab(2,3) show ?thesis by (cases u) (auto simp: UserProfile_new_def)
  qed
qed

lemma update_malformed:
  assumes "update_profile E R uid avatar bio w = (r, w')"
    and "malformed AvatarUrl_new avatar \<or> malformed Bio_new bio"
  shows "isl r \<and> db w' = db w"
  using update_outcome [OF assms(1)] assms(2)
    requested_malformed [of AvatarUrl_new avatar] requested_malformed [of Bio_new bio]
  by (elim disjE exE conjE) simp_all

end

definition stored_profile :: "database \<Rightarrow> uuid \<Rightarrow> user_profile option" where
  "stored_profile d uid = map_option into_profile (find (\<lambda>r. prf_user_id r = uid) (user_profiles d))"

lemma readable_value_eq_Some: "readable_value new_value col = Some v \<Longrightarrow> \<exists>s. new_value s = Inr v"
  by (auto simp: readable_value_def split: option.splits if_splits sum.splits)

lemma into_profile_ok: "profile_ok (into_profile r)"
  using readable_value_eq_Some AvatarUrl_new_idem Bio_new_idem
  by (auto simp: profile_ok_def into_profile_def UserProfile_new_def dest!: readable_value_eq_Some)

lemma AvatarUrl_stored: "AvatarUrl_new (avatar_as_str a) = Inr a \<Longrightarrow> avatar_as_str a \<noteq> [] \<and> length (avatar_as_str a) \<le> 500"
  by (cases a) (auto simp: AvatarUrl_new_def MAX_URL_LEN_def Let_def split: if_splits)

lemma Bio_stored: "Bio_new (bio_as_str b) = Inr b \<Longrightarrow> bio_as_str b \<noteq> []"
  by (cases b) (auto simp: Bio_new_def Let_def split: if_splits)

text \<open>The row written for a profile its constructors accept reads back as that profile.\<close>

lemma into_profile_row:
  assumes "profile_ok p"
  shows "into_profile \<lparr>prf_user_id = pf_user_id p, prf_avatar_url = map_option avatar_as_str (pf_avatar_url p),
           prf_bio = map_option bio_as_str (pf_bio p), prf_updated_at = pf_updated_at p\<rparr> = p"
  using assms AvatarUrl_stored Bio_stored
  by (cases "pf_avatar_url p"; cases "pf_bio p")
     (auto simp: profile_ok_def into_profile_def UserProfile_new_def readable_value_def)

lemma upsert_profile_stores:
  assumes "profile_ok p"
  defines "row \<equiv> \<lparr>prf_user_id = pf_user_id p, prf_avatar_url = map_option avatar_as_str (pf_avatar_url p),
           prf_bio = map_option bio_as_str (pf_bio p), prf_updated_at = pf_updated_at p\<rparr>"
  shows "(\<exists>e. upsert_profile row now d = (Inl e, d)) \<or>
         (\<exists>d1. upsert_profile row now d = (Inr (), d1) \<and>
            stored_profile d1 = (stored_profile d)(pf_user_id p \<mapsto> p))"
proof -
  have col: "transposeR (as_varchar 500) (map_option avatar_as_str (pf_avatar_url p)) = Inr x \<Longrightarrow>
      x = map_option avatar_as_str (pf_avatar_url p)" for x
    using assms(1) AvatarUrl_stored le_trans [OF char_count_le_length]
    by (cases "pf_avatar_url p") (auto simp: transposeR_eq_Inr profile_ok_def as_varchar_short)
  have col2: "transposeR as_text (map_option bio_as_str (pf_bio p)) = Inr x \<Longrightarrow> x = map_option bio_as_str (pf_bio p)" for x
    by (cases "pf_bio p") (auto simp: transposeR_eq_Inr)
  show ?thesis
    using upsert_profile_cases [of row now d]
  proof (elim disjE exE conjE)
    fix r1 assume up: "upsert_profile row now d = (Inr (), d\<lparr>user_profiles := upsert_row prf_user_id r1 (user_profiles d)\<rparr>)"
    have "upsert_profile row now d = (Inr (), d\<lparr>user_profiles := upsert_row prf_user_id row (user_profiles d)\<rparr>)"
      using up col col2 unfolding upsert_profile_def bindR_def row_def
      by (auto split: sum.splits if_splits)
    moreover have "into_profile row = p" unfolding row_def by (rule into_profile_row [OF assms(1)])
    moreover have "prf_user_id row = pf_user_id p" by (simp add: row_def)
    ultimately show ?thesis by (auto simp: stored_profile_def find_upsert_row fun_eq_iff)
  qed simp
qed

lemma profile_queryE_error: "fst (profile_queryE E f w) \<noteq> Inl (Profile_InvalidValue msg)"
  by (simp add: profile_queryE_def map_errE_def map_err_def case_prod_beta split: sum.split)

interpretation postgres_profiles: profile_store "postgres_profile_repo E" stored_profile
  for E :: "('e) env_scheme"
proof
  show "profile_ok p \<and> pf_user_id p = uid" if "stored_profile d uid = Some p" for d uid p
    using that into_profile_ok by (auto simp: stored_profile_def find_Some_iff into_profile_def UserProfile_new_def)
  show "db w' = db w \<and> (\<forall>x. q = Inr x \<longrightarrow> x = stored_profile (db w) uid) \<and> (\<forall>msg. q \<noteq> Inl (Profile_InvalidValue msg))"
    if "pr_find_by_user_id (postgres_profile_repo E) uid w = (q, w')" for uid q and w w' :: "'f world_scheme"
    using that
    by (cases "pg_link_at E (tick w)")
       (auto simp: postgres_profile_repo_def find_by_user_id_def profile_queryE_def stmtE_def select_profile_def
         stored_profile_def bindE_def map_errE_def map_err_def)
  show "(stored_profile (db w') = (stored_profile (db w))(pf_user_id p \<mapsto> p) \<or> (\<exists>e. u = Inl e) \<and> db w' = db w) \<and>
      (\<forall>msg. u \<noteq> Inl (Profile_InvalidValue msg))"
    if ok: "profile_ok p" and call: "pr_upsert (postgres_profile_repo E) p w = (u, w')" for p u and w w' :: "'f world_scheme"
    using upsert_profile_stores [OF ok, of "pg_now E (tick w)" "db w"] call
      profile_queryE_error [of E _ w]
    by (cases "pg_link_at E (tick w)")
       (auto simp: postgres_profile_repo_def upsert_def profile_queryE_def stmtE_def map_errE_def map_err_def)
qed


text \<open>What a constructor lets through, seen as text.\<close>

lemma avatar_text: "AvatarUrl_new s = Inr a \<Longrightarrow> avatar_as_str a = trim s \<and> trim s \<noteq> [] \<and> length (trim s) \<le> MAX_URL_LEN"
  by (auto simp: AvatarUrl_new_def Let_def split: if_splits)

lemma bio_text: "Bio_new s = Inr b \<Longrightarrow> bio_as_str b = trim s \<and> trim s \<noteq> [] \<and> length (trim s) \<le> MAX_BIO_LEN"
  by (auto simp: Bio_new_def Let_def split: if_splits)

lemma avatar_bounded: "AvatarUrl_new s = Inr a \<Longrightarrow> length (avatar_as_str a) \<in> {1..MAX_URL_LEN}"
  using avatar_text [of s a] by (cases "trim s") simp_all

lemma bio_bounded: "Bio_new s = Inr b \<Longrightarrow> length (bio_as_str b) \<in> {1..MAX_BIO_LEN}"
  using bio_text [of s b] by (cases "trim s") simp_all

lemma requested_value:
  assumes "requested new_value label req (Option.bind old get_field) = Inr v"
    and "\<And>s x. new_value s = Inr x \<Longrightarrow> as_str x = trim s \<and> P s"
  shows "map_option as_str v = (case req of
           None \<Rightarrow> Option.bind old (\<lambda>q. map_option as_str (get_field q))
         | Some val \<Rightarrow> if val = [] then None else Some (trim val))"
  using assms by (cases old) (auto simp: requested_def bindR_eq_Inr split: option.splits if_splits)

lemma get_profile_up:
  "pg_link_at E (tick w) = Pg_Up \<Longrightarrow>
     fst (get_profile (postgres_profile_repo E) uid w) = ok_or (Profile_NotFound uid) (stored_profile (db w) uid)"
  by (simp add: get_profile_def postgres_profile_repo_def find_by_user_id_def profile_queryE_def stmtE_up
      select_profile_def stored_profile_def bindE_def map_errE_def map_err_def liftE_def returnE_def)


section \<open>Properties\<close>



text \<open>
  C39. The update handler answers 200, 400 or 500.  A request with no field, or with a
  field its constructor refuses, is never answered 200 and changes nothing, and neither
  does any request that is answered 400.
\<close>

theorem profile_handler_rejects:
  assumes "update_profile_handler E T (postgres_profile_repo E) user req w = (resp, w')"
  shows "status resp \<in> {200, 400, 500} \<and>
         (status resp = 400 \<longrightarrow> db w' = db w) \<and>
         (up_avatar_url req = None \<and> up_bio req = None \<or> malformed AvatarUrl_new (up_avatar_url req) \<or>
           malformed Bio_new (up_bio req) \<longrightarrow> status resp \<noteq> 200 \<and> db w' = db w)"
proof (intro conjI)
  obtain r w1 where call: "update_profile E (postgres_profile_repo E) (au_user_id user) (up_avatar_url req) (up_bio req) w = (r, w1)"
    by fastforce
  then have w': "w1 = w'" and resp: "status resp = (case r of Inr p \<Rightarrow> 200 | Inl (Profile_InvalidValue msg) \<Rightarrow> 400 | Inl _ \<Rightarrow> 500)"
    using assms by (auto simp: update_profile_handler_def split: sum.splits profile_error.splits)
  show "status resp \<in> {200, 400, 500}" using resp by (simp split: sum.split profile_error.split)
  show "status resp = 400 \<longrightarrow> db w' = db w"
    using resp w' postgres_profiles.update_outcome [OF call] by (auto split: sum.splits profile_error.splits)
  have "isl r \<Longrightarrow> status resp \<noteq> 200" using resp by (cases r) (simp_all split: profile_error.split)
  then show "up_avatar_url req = None \<and> up_bio req = None \<or> malformed AvatarUrl_new (up_avatar_url req) \<or>
           malformed Bio_new (up_bio req) \<longrightarrow> status resp \<noteq> 200 \<and> db w' = db w"
    using postgres_profiles.update_malformed [OF call] call w' by (auto simp: update_profile_def)
qed

theorem profile_handler_rejects_witness:
  "\<exists>resp w'. update_profile_handler calm_env demo_text (postgres_profile_repo calm_env)
       \<lparr>au_user_id = 1, au_jti = 2, au_exp = 0\<rparr>
       \<lparr>up_avatar_url = Some '' '', up_bio = None\<rparr> ann_world = (resp, w') \<and> status resp \<noteq> 200 \<and> db w' = db ann_world"
proof -
  let ?user = "\<lparr>au_user_id = 1, au_jti = 2, au_exp = 0\<rparr>" and ?req = "\<lparr>up_avatar_url = Some '' '', up_bio = None\<rparr>"
  obtain resp w' where call:
    "update_profile_handler calm_env demo_text (postgres_profile_repo calm_env) ?user ?req ann_world = (resp, w')"
    by (rule prod.exhaust)
  have "malformed AvatarUrl_new (up_avatar_url ?req)" by code_simp
  with call profile_handler_rejects [OF call] show ?thesis by blast
qed

end
