(* ===== verification/Rate_Limiter.thy ===== *)
theory Rate_Limiter
  imports Redis_Service
begin

text \<open>
  The rate limiters of \<open>crates/infrastructure/src/rate_limiter\<close> behind the \<open>RateLimiter\<close>
  port of \<open>crates/shared/src/ports.rs\<close>: the in-memory one, the Redis one with its
  in-memory shadow, and the choice between them.  \<open>attempt_budget\<close> is the contract the
  login and refresh handlers rely on.
\<close>

section \<open>The in-memory limiter\<close>

definition MAX_ENTRIES :: nat where
  "MAX_ENTRIES = 100000"

record rate_limit_entry =
  attempts :: u32
  window_start :: time

record memory_rate_limiter =
  max_attempts :: u32
  window_duration :: time
  entries :: "(ip_addr, rate_limit_entry) hash_map"

definition MemoryRateLimiter_new :: "u32 \<Rightarrow> u64 \<Rightarrow> memory_rate_limiter" where
  "MemoryRateLimiter_new max_att window_seconds =
     \<lparr>max_attempts = max_att, window_duration = secs (uint window_seconds), entries = []\<rparr>"

definition clean_expired :: "time \<Rightarrow> memory_rate_limiter \<Rightarrow> memory_rate_limiter" where
  "clean_expired now L =
     L\<lparr>entries := hm_retain (\<lambda>_ entry. duration_since now (window_start entry) < window_duration L)
                   (entries L)\<rparr>"

text \<open>\<open>iter().min_by_key(|(_, entry)| entry.window_start)\<close>: the first of the oldest.\<close>

fun min_by_start :: "(ip_addr, rate_limit_entry) hash_map \<Rightarrow> (ip_addr \<times> rate_limit_entry) option" where
  "min_by_start [] = None"
| "min_by_start (x # xs) =
     (case min_by_start xs of
        None \<Rightarrow> Some x
      | Some y \<Rightarrow> if window_start (snd y) < window_start (snd x) then Some y else Some x)"

definition evict_oldest_if_full :: "memory_rate_limiter \<Rightarrow> memory_rate_limiter" where
  "evict_oldest_if_full L =
     (if length (entries L) < MAX_ENTRIES then L
      else (case min_by_start (entries L) of
              None \<Rightarrow> L
            | Some (oldest_ip, _) \<Rightarrow> L\<lparr>entries := hm_remove oldest_ip (entries L)\<rparr>))"

text \<open>
  The port's operations.  \<open>clk 0\<close> is the reading of \<open>clean_expired\<close> and \<open>clk 1\<close> the one of
  the operation itself.
\<close>

definition mem_check ::
  "(nat \<Rightarrow> time) \<Rightarrow> ip_addr \<Rightarrow> memory_rate_limiter \<Rightarrow> bool \<times> memory_rate_limiter" where
  "mem_check clk ip L =
     (let L1 = clean_expired (clk 0) L
      in (case map_of (entries L1) ip of
            Some entry \<Rightarrow>
              if duration_since (clk 1) (window_start entry) \<ge> window_duration L1 then True
              else attempts entry < max_attempts L1
          | None \<Rightarrow> True, L1))"

text \<open>What \<open>record_attempt\<close> and \<open>try_check_and_record\<close> do before they look at the entry.\<close>

definition mem_prepare :: "(nat \<Rightarrow> time) \<Rightarrow> ip_addr \<Rightarrow> memory_rate_limiter \<Rightarrow> memory_rate_limiter" where
  "mem_prepare clk ip L =
     (let L1 = clean_expired (clk 0) L;
          L2 = (if \<not> hm_contains ip (entries L1) then evict_oldest_if_full L1 else L1)
      in L2\<lparr>entries := hm_or_insert ip \<lparr>attempts = 0, window_start = clk 1\<rparr> (entries L2)\<rparr>)"

definition mem_record_attempt ::
  "(nat \<Rightarrow> time) \<Rightarrow> ip_addr \<Rightarrow> memory_rate_limiter \<Rightarrow> memory_rate_limiter" where
  "mem_record_attempt clk ip L =
     (let L1 = mem_prepare clk ip L
      in L1\<lparr>entries := hm_modify ip
              (\<lambda>entry.
                 if duration_since (clk 1) (window_start entry) \<ge> window_duration L1
                 then \<lparr>attempts = 1, window_start = clk 1\<rparr>
                 else entry\<lparr>attempts := attempts entry + 1\<rparr>)
              (entries L1)\<rparr>)"

definition mem_try_check_and_record ::
  "(nat \<Rightarrow> time) \<Rightarrow> ip_addr \<Rightarrow> memory_rate_limiter \<Rightarrow> bool \<times> memory_rate_limiter" where
  "mem_try_check_and_record clk ip L =
     (let L1 = mem_prepare clk ip L
      in case map_of (entries L1) ip of
           None \<Rightarrow> (True, L1)
         | Some entry \<Rightarrow>
             if duration_since (clk 1) (window_start entry) \<ge> window_duration L1 then
               (True, L1\<lparr>entries := hm_modify ip (\<lambda>_. \<lparr>attempts = 1, window_start = clk 1\<rparr>)
                                     (entries L1)\<rparr>)
             else if attempts entry < max_attempts L1 then
               (True, L1\<lparr>entries := hm_modify ip (\<lambda>entry. entry\<lparr>attempts := attempts entry + 1\<rparr>)
                                     (entries L1)\<rparr>)
             else (False, L1))"

definition mem_remaining_attempts :: "(nat \<Rightarrow> time) \<Rightarrow> ip_addr \<Rightarrow> memory_rate_limiter \<Rightarrow> u32" where
  "mem_remaining_attempts clk ip L =
     (case map_of (entries L) ip of
        Some entry \<Rightarrow>
          if duration_since (clk 0) (window_start entry) \<ge> window_duration L then max_attempts L
          else saturating_sub (max_attempts L) (attempts entry)
      | None \<Rightarrow> max_attempts L)"

definition mem_reset :: "ip_addr \<Rightarrow> memory_rate_limiter \<Rightarrow> memory_rate_limiter" where
  "mem_reset ip L = L\<lparr>entries := hm_remove ip (entries L)\<rparr>"


section \<open>The Redis limiter\<close>

record redis_rate_limiter =
  rr_max_attempts :: u32
  rr_window_seconds :: u64
  rr_key_prefix :: string
  rr_redis_error_count :: u64
  rr_shadow :: memory_rate_limiter

definition RedisRateLimiter_new :: "u32 \<Rightarrow> u64 \<Rightarrow> string \<Rightarrow> redis_rate_limiter" where
  "RedisRateLimiter_new max_att window_seconds key_prefix =
     \<lparr>rr_max_attempts = max_att, rr_window_seconds = window_seconds, rr_key_prefix = key_prefix,
      rr_redis_error_count = 0, rr_shadow = MemoryRateLimiter_new max_att window_seconds\<rparr>"

definition rr_key :: "redis_rate_limiter \<Rightarrow> ip_addr \<Rightarrow> string" where
  "rr_key L ip = ''ratelimit:'' @ rr_key_prefix L @ '':'' @ show_ip ip"

definition record_redis_error :: "redis_rate_limiter \<Rightarrow> redis_rate_limiter" where
  "record_redis_error L = L\<lparr>rr_redis_error_count := rr_redis_error_count L + 1\<rparr>"

definition with_shadow :: "memory_rate_limiter \<Rightarrow> redis_rate_limiter \<Rightarrow> redis_rate_limiter" where
  "with_shadow M L = L\<lparr>rr_shadow := M\<rparr>"

definition red_check ::
  "('r, 'z) redis_server_scheme \<Rightarrow> call_ctx \<Rightarrow> ip_addr \<Rightarrow> redis_rate_limiter \<times> 'r
   \<Rightarrow> bool \<times> redis_rate_limiter \<times> 'r" where
  "red_check R cx ip s =
     (case s of (L, r) \<Rightarrow>
        (case redis_call (cx_link cx) (GET_u32 R (cx_srv cx) (rr_key L ip)) r of
           (ROk (Some count), r1) \<Rightarrow> (count < rr_max_attempts L, L, r1)
         | (ROk None, r1) \<Rightarrow> (True, L, r1)
         | (_, r1) \<Rightarrow>
             (case mem_check (cx_clk cx) ip (rr_shadow L) of
                (ok, M) \<Rightarrow> (ok, with_shadow M (record_redis_error L), r1))))"

definition red_record_attempt ::
  "('r, 'z) redis_server_scheme \<Rightarrow> call_ctx \<Rightarrow> ip_addr \<Rightarrow> redis_rate_limiter \<times> 'r
   \<Rightarrow> redis_rate_limiter \<times> 'r" where
  "red_record_attempt R cx ip s =
     (case s of (L, r) \<Rightarrow>
        (case redis_call (cx_link cx)
                (incr_with_expire_script R (cx_srv cx) (rr_key L ip) (rr_window_seconds L)) r of
           (ROk _, r1) \<Rightarrow> (L, r1)
         | (_, r1) \<Rightarrow>
             (with_shadow (mem_record_attempt (cx_clk cx) ip (rr_shadow L)) (record_redis_error L), r1)))"

definition red_try_check_and_record ::
  "('r, 'z) redis_server_scheme \<Rightarrow> call_ctx \<Rightarrow> ip_addr \<Rightarrow> redis_rate_limiter \<times> 'r
   \<Rightarrow> bool \<times> redis_rate_limiter \<times> 'r" where
  "red_try_check_and_record R cx ip s =
     (case s of (L, r) \<Rightarrow>
        (case redis_call (cx_link cx)
                (try_check_and_record_script R (cx_srv cx) (rr_key L ip) (rr_window_seconds L)
                   (rr_max_attempts L)) r of
           (ROk allowed, r1) \<Rightarrow> (allowed \<noteq> 0, L, r1)
         | (_, r1) \<Rightarrow>
             (case mem_try_check_and_record (cx_clk cx) ip (rr_shadow L) of
                (ok, M) \<Rightarrow> (ok, with_shadow M (record_redis_error L), r1))))"

definition red_remaining_attempts ::
  "('r, 'z) redis_server_scheme \<Rightarrow> call_ctx \<Rightarrow> ip_addr \<Rightarrow> redis_rate_limiter \<times> 'r
   \<Rightarrow> u32 \<times> redis_rate_limiter \<times> 'r" where
  "red_remaining_attempts R cx ip s =
     (case s of (L, r) \<Rightarrow>
        (case redis_call (cx_link cx) (GET_u32 R (cx_srv cx) (rr_key L ip)) r of
           (ROk (Some count), r1) \<Rightarrow> (saturating_sub (rr_max_attempts L) count, L, r1)
         | (ROk None, r1) \<Rightarrow> (rr_max_attempts L, L, r1)
         | (_, r1) \<Rightarrow>
             (mem_remaining_attempts (cx_clk cx) ip (rr_shadow L), record_redis_error L, r1)))"

definition red_reset ::
  "('r, 'z) redis_server_scheme \<Rightarrow> call_ctx \<Rightarrow> ip_addr \<Rightarrow> redis_rate_limiter \<times> 'r
   \<Rightarrow> redis_rate_limiter \<times> 'r" where
  "red_reset R cx ip s =
     (case s of (L, r) \<Rightarrow>
        (case redis_call (cx_link cx) (DEL R (cx_srv cx) (rr_key L ip)) r of
           (outcome, r1) \<Rightarrow>
             let L1 = (case outcome of ROk _ \<Rightarrow> L | _ \<Rightarrow> record_redis_error L)
             in (with_shadow (mem_reset ip (rr_shadow L1)) L1, r1)))"


section \<open>The port and the choice of its backend\<close>

text \<open>The \<open>RateLimiter\<close> trait object: its methods over a state that holds the limiter and
  whatever it talks to.\<close>

record 's rate_limiter =
  rl_check :: "call_ctx \<Rightarrow> ip_addr \<Rightarrow> 's \<Rightarrow> bool \<times> 's"
  rl_record_attempt :: "call_ctx \<Rightarrow> ip_addr \<Rightarrow> 's \<Rightarrow> 's"
  rl_try_check_and_record :: "call_ctx \<Rightarrow> ip_addr \<Rightarrow> 's \<Rightarrow> bool \<times> 's"
  rl_remaining_attempts :: "call_ctx \<Rightarrow> ip_addr \<Rightarrow> 's \<Rightarrow> u32 \<times> 's"
  rl_reset :: "call_ctx \<Rightarrow> ip_addr \<Rightarrow> 's \<Rightarrow> 's"

definition memory_limiter :: "memory_rate_limiter rate_limiter" where
  "memory_limiter =
     \<lparr>rl_check = (\<lambda>cx. mem_check (cx_clk cx)),
      rl_record_attempt = (\<lambda>cx. mem_record_attempt (cx_clk cx)),
      rl_try_check_and_record = (\<lambda>cx. mem_try_check_and_record (cx_clk cx)),
      rl_remaining_attempts = (\<lambda>cx ip L. (mem_remaining_attempts (cx_clk cx) ip L, L)),
      rl_reset = (\<lambda>cx. mem_reset)\<rparr>"

definition redis_limiter ::
  "('r, 'z) redis_server_scheme \<Rightarrow> (redis_rate_limiter \<times> 'r) rate_limiter" where
  "redis_limiter R =
     \<lparr>rl_check = red_check R,
      rl_record_attempt = red_record_attempt R,
      rl_try_check_and_record = red_try_check_and_record R,
      rl_remaining_attempts = red_remaining_attempts R,
      rl_reset = red_reset R\<rparr>"

datatype limiter_backend =
    Memory_Backend memory_rate_limiter
  | Redis_Backend redis_rate_limiter

text \<open>
  \<open>RedisRateLimiter::connect\<close>: opening the client, the connection manager and the startup
  PING are steps of the Redis client library, here the parameters \<open>open_client\<close> and
  \<open>startup\<close>; the outcome of a startup step is an error, a timeout, or success.
\<close>

definition RedisRateLimiter_connect ::
  "(string \<Rightarrow> string + unit) \<Rightarrow> (nat \<Rightarrow> unit redis_outcome) \<Rightarrow> (nat \<Rightarrow> string) \<Rightarrow>
   string \<Rightarrow> u32 \<Rightarrow> u64 \<Rightarrow> string \<Rightarrow> string + redis_rate_limiter" where
  "RedisRateLimiter_connect open_client startup startup_error url max_att window_seconds prefix =
     bindR (open_client url) (\<lambda>_.
       (case startup 0 of
          RTimeout \<Rightarrow> Inl ''Redis connection manager setup timed out''
        | RErr \<Rightarrow> Inl (startup_error 0)
        | ROk _ \<Rightarrow>
            (case startup 1 of
               RTimeout \<Rightarrow> Inl ''Redis startup PING timed out''
             | RErr \<Rightarrow> Inl (startup_error 1)
             | ROk _ \<Rightarrow> Inr (RedisRateLimiter_new max_att window_seconds prefix))))"

record error_counters =
  ec_login :: "u64 option"
  ec_refresh :: "u64 option"

text \<open>\<open>connect_with n\<close> is the \<open>n\<close>-th \<open>RedisRateLimiter::connect\<close> of the startup.\<close>

definition build_rate_limiters ::
  "(nat \<Rightarrow> string \<Rightarrow> u32 \<Rightarrow> u64 \<Rightarrow> string \<Rightarrow> string + redis_rate_limiter) \<Rightarrow>
   string option \<Rightarrow> u32 \<Rightarrow> u64 \<Rightarrow>
   string + (limiter_backend \<times> limiter_backend \<times> error_counters)" where
  "build_rate_limiters connect_with redis_url max_att window_seconds =
     (case redis_url of
        Some url \<Rightarrow>
          bindR (connect_with 0 url max_att window_seconds ''login'') (\<lambda>login.
          bindR (connect_with 1 url max_att window_seconds ''refresh'') (\<lambda>refresh.
            Inr (Redis_Backend login, Redis_Backend refresh,
                 \<lparr>ec_login = Some (rr_redis_error_count login),
                  ec_refresh = Some (rr_redis_error_count refresh)\<rparr>)))
      | None \<Rightarrow>
          Inr (Memory_Backend (MemoryRateLimiter_new max_att window_seconds),
               Memory_Backend (MemoryRateLimiter_new max_att window_seconds),
               \<lparr>ec_login = None, ec_refresh = None\<rparr>))"


section \<open>The budget contract\<close>

text \<open>A sequence of calls of \<open>try_check_and_record\<close>, each with its context, and what they
  answered; how many of them came from, and were granted to, one address.\<close>

fun run_attempts ::
  "(call_ctx \<Rightarrow> ip_addr \<Rightarrow> 's \<Rightarrow> bool \<times> 's) \<Rightarrow> (call_ctx \<times> ip_addr) list \<Rightarrow> 's
   \<Rightarrow> (ip_addr \<times> bool) list \<times> 's" where
  "run_attempts attempt [] s = ([], s)"
| "run_attempts attempt ((cx, ip) # calls) s =
     (case attempt cx ip s of (ok, s1) \<Rightarrow>
        (case run_attempts attempt calls s1 of (outs, s2) \<Rightarrow> ((ip, ok) # outs, s2)))"

definition granted :: "ip_addr \<Rightarrow> (ip_addr \<times> bool) list \<Rightarrow> nat" where
  "granted ip outs = length (filter (\<lambda>x. x = (ip, True)) outs)"

definition calls_of :: "ip_addr \<Rightarrow> (call_ctx \<times> ip_addr) list \<Rightarrow> nat" where
  "calls_of ip calls = length (filter (\<lambda>c. snd c = ip) calls)"

text \<open>The calls happen one after another, from \<open>t\<close> on and before \<open>d\<close>.\<close>

fun timeline ::
  "(call_ctx \<Rightarrow> time) \<Rightarrow> (call_ctx \<Rightarrow> time) \<Rightarrow> time \<Rightarrow> time \<Rightarrow> (call_ctx \<times> ip_addr) list \<Rightarrow> bool" where
  "timeline early late t d [] = True"
| "timeline early late t d (c # calls) =
     (t \<le> early (fst c) \<and> early (fst c) \<le> late (fst c) \<and> late (fst c) < d \<and>
      timeline early late (late (fst c)) d calls)"

text \<open>
  The contract of a fixed-window limiter.  \<open>window t ip s\<close> is the live window of an address
  at time \<open>t\<close>: the attempts charged to it and the time it ends; \<open>inv k t s\<close> says that the
  limiter is in order from \<open>t\<close> on and good for \<open>k\<close> more calls.  \<open>early\<close> and \<open>late\<close> are
  the first and the last clock reading of a call, \<open>span\<close> the length of a window.
\<close>

locale attempt_budget =
  fixes attempt :: "call_ctx \<Rightarrow> ip_addr \<Rightarrow> 's \<Rightarrow> bool \<times> 's"
    and clients :: "ip_addr set"
    and budget :: nat
    and span :: time
    and inv :: "nat \<Rightarrow> time \<Rightarrow> 's \<Rightarrow> bool"
    and window :: "time \<Rightarrow> ip_addr \<Rightarrow> 's \<Rightarrow> (nat \<times> time) option"
    and early :: "call_ctx \<Rightarrow> time"
    and late :: "call_ctx \<Rightarrow> time"
  assumes attempt_inv:
      "inv (Suc k) (early cx) s \<Longrightarrow> ip \<in> clients \<Longrightarrow> early cx \<le> late cx \<Longrightarrow>
       inv k (late cx) (snd (attempt cx ip s))"
    and inv_later: "inv k t s \<Longrightarrow> t \<le> t' \<Longrightarrow> inv k t' s"
    and window_later:
      "inv k t s \<Longrightarrow> t \<le> t' \<Longrightarrow>
       window t' ip s = (case window t ip s of None \<Rightarrow> None
                         | Some (n, d) \<Rightarrow> if t' < d then Some (n, d) else None)"
    and attempt_live:
      "inv (Suc k) (early cx) s \<Longrightarrow> ip \<in> clients \<Longrightarrow> early cx \<le> late cx \<Longrightarrow>
       window (early cx) ip s = Some (n, d) \<Longrightarrow> late cx < d \<Longrightarrow>
       fst (attempt cx ip s) = (n < budget) \<and>
       (\<exists>n'. window (late cx) ip (snd (attempt cx ip s)) = Some (n', d) \<and>
             (if n < budget then n' = Suc n else n \<le> n'))"
    and attempt_fresh:
      "inv (Suc k) (early cx) s \<Longrightarrow> ip \<in> clients \<Longrightarrow> early cx \<le> late cx \<Longrightarrow>
       window (early cx) ip s = None \<Longrightarrow>
       fst (attempt cx ip s) = (0 < budget) \<and>
       (\<exists>n' d. window (late cx) ip (snd (attempt cx ip s)) = Some (n', d) \<and> d = late cx + span \<and>
             (0 < budget \<longrightarrow> n' = 1))"
    and attempt_other:
      "inv (Suc k) (early cx) s \<Longrightarrow> ip \<in> clients \<Longrightarrow> ip' \<in> clients \<Longrightarrow> early cx \<le> late cx \<Longrightarrow>
       ip' \<noteq> ip \<Longrightarrow> window (late cx) ip' (snd (attempt cx ip s)) = window (late cx) ip' s"
begin

lemma granted_in_window:
  assumes "inv (length calls) t s" and "window t ip s = Some (n, d)" and "timeline early late t d calls"
    and "snd ` set calls \<subseteq> clients" and "ip \<in> clients"
  shows "granted ip (fst (run_attempts attempt calls s)) = min (calls_of ip calls) (budget - n)"
  using assms
proof (induction calls arbitrary: s t n)
  case Nil
  then show ?case by (simp add: granted_def calls_of_def)
next
  case (Cons c calls)
  obtain cx ip1 where c: "c = (cx, ip1)" by fastforce
  obtain ok s1 where a: "attempt cx ip1 s = (ok, s1)" by fastforce
  have t: "t \<le> early cx" "early cx \<le> late cx" "late cx < d" "timeline early late (late cx) d calls"
    using Cons.prems(3) c by simp_all
  have inv0: "inv (Suc (length calls)) (early cx) s"
    using inv_later [of _ t s "early cx"] Cons.prems(1) t by simp
  have inv1: "inv (length calls) (late cx) s1"
    using attempt_inv [of "length calls" cx s ip1] inv0 a Cons.prems c t by simp
  have e: "window (early cx) ip s = Some (n, d)"
    using window_later [of _ t s "early cx" ip] Cons.prems t by simp
  show ?case
  proof (cases "ip1 = ip")
    case True
    from attempt_live [of "length calls" cx s ip n d] inv0 e t Cons.prems a True
    obtain n' where ok: "ok = (n < budget)"
      and w: "window (late cx) ip s1 = Some (n', d)" "if n < budget then n' = Suc n else n \<le> n'"
      by auto
    have "granted ip (fst (run_attempts attempt calls s1)) = min (calls_of ip calls) (budget - n')"
      using Cons.IH inv1 w(1) t(4) Cons.prems(4,5) by simp
    then show ?thesis
      using w(2) ok a c True by (auto simp: granted_def calls_of_def case_prod_beta split: if_splits)
  next
    case False
    have "window (late cx) ip s1 = Some (n, d)"
      using attempt_other [of "length calls" cx s ip1 ip] inv0 a Cons.prems c t False
            window_later [of _ t s "late cx" ip] by simp
    then have "granted ip (fst (run_attempts attempt calls s1)) = min (calls_of ip calls) (budget - n)"
      using Cons.IH inv1 t(4) Cons.prems(4,5) by simp
    then show ?thesis
      using a c False by (simp add: granted_def calls_of_def case_prod_beta)
  qed
qed

lemma timeline_mono:
  "timeline early late t d calls \<Longrightarrow> t' \<le> t \<Longrightarrow> d \<le> d' \<Longrightarrow> timeline early late t' d' calls"
  by (induction calls arbitrary: t t') (auto simp: order_trans)

lemma granted_from_fresh:
  assumes "inv (length calls) t s" and "window t ip s = None" and "timeline early late t (t0 + span) calls"
    and "t0 \<le> t" and "snd ` set calls \<subseteq> clients" and "ip \<in> clients"
  shows "granted ip (fst (run_attempts attempt calls s)) = min (calls_of ip calls) budget"
  using assms
proof (induction calls arbitrary: s t)
  case Nil
  then show ?case by (simp add: granted_def calls_of_def)
next
  case (Cons c calls)
  obtain cx ip1 where c: "c = (cx, ip1)" by fastforce
  obtain ok s1 where a: "attempt cx ip1 s = (ok, s1)" by fastforce
  have t: "t \<le> early cx" "early cx \<le> late cx" "timeline early late (late cx) (t0 + span) calls"
    using Cons.prems(3) c by simp_all
  have inv0: "inv (Suc (length calls)) (early cx) s"
    using inv_later [of _ t s "early cx"] Cons.prems(1) t by simp
  have inv1: "inv (length calls) (late cx) s1"
    using attempt_inv [of "length calls" cx s ip1] inv0 a Cons.prems c t by simp
  have e: "window (early cx) ip s = None" "window (late cx) ip s = None"
    using window_later [of _ t s _ ip] Cons.prems t by simp_all
  show ?case
  proof (cases "ip1 = ip")
    case True
    from attempt_fresh [of "length calls" cx s ip] inv0 e t Cons.prems a True
    obtain n' d where ok: "ok = (0 < budget)"
      and w: "window (late cx) ip s1 = Some (n', d)" "d = late cx + span" "0 < budget \<longrightarrow> n' = 1"
      by auto
    have "timeline early late (late cx) d calls"
      using t(3) w(2) Cons.prems(4) t(1,2) by (auto elim!: timeline_mono)
    then have "granted ip (fst (run_attempts attempt calls s1)) =
               min (calls_of ip calls) (budget - n')"
      using granted_in_window [of calls "late cx" s1 ip n' d] inv1 w(1) Cons.prems(5,6) by simp
    then show ?thesis
      using w(3) ok a c True by (auto simp: granted_def calls_of_def case_prod_beta)
  next
    case False
    have "window (late cx) ip s1 = None"
      using attempt_other [of "length calls" cx s ip1 ip] inv0 a Cons.prems c t False e by simp
    then have "granted ip (fst (run_attempts attempt calls s1)) = min (calls_of ip calls) budget"
      using Cons.IH inv1 t Cons.prems(4-6) by simp
    then show ?thesis
      using a c False by (simp add: granted_def calls_of_def case_prod_beta)
  qed
qed

end


section \<open>The in-memory limiter meets it\<close>

definition live_entry :: "time \<Rightarrow> ip_addr \<Rightarrow> memory_rate_limiter \<Rightarrow> rate_limit_entry option" where
  "live_entry now ip L =
     (case map_of (entries L) ip of None \<Rightarrow> None
      | Some e \<Rightarrow> if duration_since now (window_start e) < window_duration L then Some e else None)"

definition mem_window :: "time \<Rightarrow> ip_addr \<Rightarrow> memory_rate_limiter \<Rightarrow> (nat \<times> time) option" where
  "mem_window t ip L =
     map_option (\<lambda>e. (unat (attempts e), window_start e + window_duration L)) (live_entry t ip L)"

definition mem_wf :: "memory_rate_limiter \<Rightarrow> bool" where
  "mem_wf L \<longleftrightarrow> hm_ok (entries L) \<and> length (entries L) \<le> MAX_ENTRIES"

text \<open>The limiter with its settings, tracking only the clients of a set it has room for.\<close>

definition mem_inv :: "ip_addr set \<Rightarrow> u32 \<Rightarrow> time \<Rightarrow> memory_rate_limiter \<Rightarrow> bool" where
  "mem_inv clients m w L \<longleftrightarrow>
     mem_wf L \<and> finite clients \<and> card clients \<le> MAX_ENTRIES \<and> fst ` set (entries L) \<subseteq> clients \<and>
     max_attempts L = m \<and> window_duration L = w \<and> 0 < w"

lemma clean_expired_simps [simp]:
  "max_attempts (clean_expired now L) = max_attempts L"
  "window_duration (clean_expired now L) = window_duration L"
  by (simp_all add: clean_expired_def)

lemma evict_simps [simp]:
  "max_attempts (evict_oldest_if_full L) = max_attempts L"
  "window_duration (evict_oldest_if_full L) = window_duration L"
  by (auto simp: evict_oldest_if_full_def split: option.splits)

lemma mem_prepare_simps [simp]:
  "max_attempts (mem_prepare clk ip L) = max_attempts L"
  "window_duration (mem_prepare clk ip L) = window_duration L"
  by (auto simp: mem_prepare_def Let_def)

lemma clean_expired_lookup:
  "hm_ok (entries L) \<Longrightarrow> map_of (entries (clean_expired now L)) ip = live_entry now ip L"
  by (simp add: clean_expired_def live_entry_def map_of_hm)

lemma clean_expired_wf: "mem_wf L \<Longrightarrow> mem_wf (clean_expired now L)"
  using hm_lengths(2) [of _ "entries L"] order_trans
  by (fastforce simp: mem_wf_def clean_expired_def hm_ok_ops)

lemma min_by_start_in: "min_by_start xs = Some x \<Longrightarrow> x \<in> set xs"
  by (induction xs arbitrary: x) (auto split: option.splits if_splits)

lemma min_by_start_None: "min_by_start xs = None \<longleftrightarrow> xs = []"
  by (cases xs) (auto split: option.splits)

lemma evict_room:
  assumes "mem_wf L"
  shows "hm_ok (entries (evict_oldest_if_full L))"
    and "length (entries (evict_oldest_if_full L)) < MAX_ENTRIES"
proof -
  show "hm_ok (entries (evict_oldest_if_full L))"
    using assms by (auto simp: mem_wf_def evict_oldest_if_full_def hm_ok_ops split: option.splits)
  show "length (entries (evict_oldest_if_full L)) < MAX_ENTRIES"
  proof (cases "length (entries L) < MAX_ENTRIES")
    case True
    then show ?thesis by (simp add: evict_oldest_if_full_def)
  next
    case False
    then have "entries L \<noteq> []" by (auto simp: MAX_ENTRIES_def)
    then obtain ip e where m: "min_by_start (entries L) = Some (ip, e)"
      using min_by_start_None by fastforce
    then have "map_of (entries L) ip \<noteq> None"
      by (metis min_by_start_in not_None_eq weak_map_of_SomeI)
    then show ?thesis
      using False m assms hm_remove_length_less [of "entries L" ip]
      by (simp add: evict_oldest_if_full_def mem_wf_def)
  qed
qed

lemma mem_prepare_wf: "mem_wf L \<Longrightarrow> mem_wf (mem_prepare clk ip L)"
  using clean_expired_wf [of L "clk 0"] evict_room [of "clean_expired (clk 0) L"]
  by (auto simp: mem_wf_def mem_prepare_def Let_def hm_ok_ops hm_lengths)

lemma modify_wf: "mem_wf L \<Longrightarrow> mem_wf (L\<lparr>entries := hm_modify ip f (entries L)\<rparr>)"
  by (simp add: mem_wf_def hm_ok_ops hm_lengths)

lemma mem_ops_wf:
  assumes "mem_wf L"
  shows "mem_wf (snd (mem_check clk ip L))"
    and "mem_wf (mem_record_attempt clk ip L)"
    and "mem_wf (snd (mem_try_check_and_record clk ip L))"
    and "mem_wf (mem_reset ip L)"
proof -
  show "mem_wf (snd (mem_check clk ip L))"
    using assms by (simp add: mem_check_def clean_expired_wf Let_def)
  show "mem_wf (mem_record_attempt clk ip L)"
    using assms by (simp add: mem_record_attempt_def Let_def modify_wf mem_prepare_wf)
  show "mem_wf (snd (mem_try_check_and_record clk ip L))"
    using assms by (simp add: mem_try_check_and_record_def Let_def modify_wf mem_prepare_wf
                         split: option.splits)
  show "mem_wf (mem_reset ip L)"
    using assms hm_lengths(1) [of ip "entries L"]
    by (simp add: mem_reset_def mem_wf_def hm_ok_ops)
qed

text \<open>With room for a new client nothing is evicted.\<close>

lemma no_eviction:
  assumes "mem_inv clients m w L" and "ip \<in> clients" and "\<not> hm_contains ip (entries L)"
  shows "evict_oldest_if_full L = L"
proof -
  let ?ks = "fst ` set (entries L)"
  have "?ks \<subset> clients"
    using assms by (auto simp: mem_inv_def hm_contains_def)
  then have "card ?ks < card clients"
    using assms(1) by (auto simp: mem_inv_def psubset_card_mono)
  moreover have "card ?ks = length (entries L)"
    using assms(1) distinct_card [of "map fst (entries L)"]
    by (simp add: mem_inv_def mem_wf_def hm_ok_def)
  ultimately show ?thesis
    using assms(1) by (simp add: evict_oldest_if_full_def mem_inv_def)
qed

lemma clean_expired_inv: "mem_inv clients m w L \<Longrightarrow> mem_inv clients m w (clean_expired now L)"
  using clean_expired_wf [of L now]
  by (auto simp: mem_inv_def clean_expired_def hm_retain_def)

lemma mem_prepare_lookup:
  assumes "mem_inv clients m w L" and "ip \<in> clients"
  shows "map_of (entries (mem_prepare clk ip L)) k =
           (if k = ip \<and> live_entry (clk 0) ip L = None
            then Some \<lparr>attempts = 0, window_start = clk 1\<rparr> else live_entry (clk 0) k L)"
proof -
  let ?L1 = "clean_expired (clk 0) L"
  have inv1: "mem_inv clients m w ?L1" using assms clean_expired_inv by blast
  have l: "map_of (entries ?L1) k' = live_entry (clk 0) k' L" for k'
    using assms by (simp add: clean_expired_lookup mem_inv_def mem_wf_def)
  have "mem_prepare clk ip L =
          ?L1\<lparr>entries := hm_or_insert ip \<lparr>attempts = 0, window_start = clk 1\<rparr> (entries ?L1)\<rparr>"
    using no_eviction [OF inv1 assms(2)] by (simp add: mem_prepare_def Let_def)
  then show ?thesis by (simp add: map_of_hm l)
qed

lemma mem_prepare_inv:
  assumes "mem_inv clients m w L" and "ip \<in> clients"
  shows "mem_inv clients m w (mem_prepare clk ip L)"
proof -
  have "k \<in> clients" if "map_of (entries (mem_prepare clk ip L)) k = Some e" for k e
    using that assms map_of_SomeD
    by (fastforce simp: mem_prepare_lookup live_entry_def mem_inv_def split: if_splits option.splits)
  then have "fst ` set (entries (mem_prepare clk ip L)) \<subseteq> clients"
    by (metis map_of_eq_None_iff not_None_eq subsetI)
  then show ?thesis
    using assms mem_prepare_wf by (simp add: mem_inv_def)
qed

lemma modify_inv:
  "mem_inv clients m w L \<Longrightarrow> mem_inv clients m w (L\<lparr>entries := hm_modify ip f (entries L)\<rparr>)"
  using modify_wf [of L ip f] hm_modify_keys [of ip f "entries L"]
  by (auto simp: mem_inv_def simp flip: set_map)

lemma mem_try_inv:
  "mem_inv clients m w L \<Longrightarrow> ip \<in> clients \<Longrightarrow>
   mem_inv clients m w (snd (mem_try_check_and_record clk ip L))"
  by (simp add: mem_try_check_and_record_def Let_def mem_prepare_inv modify_inv split: option.splits)


lemma mem_try_live:
  assumes "mem_inv clients m w L" and "ip \<in> clients"
    and "live_entry (clk 0) ip L = Some e" and "duration_since (clk 1) (window_start e) < w"
  shows "fst (mem_try_check_and_record clk ip L) = (attempts e < m) \<and>
         map_of (entries (snd (mem_try_check_and_record clk ip L))) ip =
           Some (if attempts e < m then e\<lparr>attempts := attempts e + 1\<rparr> else e)"
  using assms mem_prepare_lookup [OF assms(1,2), of clk ip]
  by (auto simp: mem_try_check_and_record_def Let_def map_of_hm mem_inv_def)

lemma mem_try_fresh:
  assumes "mem_inv clients m w L" and "ip \<in> clients" and "live_entry (clk 0) ip L = None"
  shows "fst (mem_try_check_and_record clk ip L) = (0 < m) \<and>
         map_of (entries (snd (mem_try_check_and_record clk ip L))) ip =
           Some \<lparr>attempts = (if 0 < m then 1 else 0), window_start = clk 1\<rparr>"
  using assms mem_prepare_lookup [OF assms(1,2), of clk ip]
  by (auto simp: mem_try_check_and_record_def Let_def map_of_hm mem_inv_def duration_since_def)

lemma mem_try_other:
  assumes "mem_inv clients m w L" and "ip \<in> clients" and "k \<noteq> ip"
  shows "map_of (entries (snd (mem_try_check_and_record clk ip L))) k = live_entry (clk 0) k L"
  using mem_prepare_lookup [OF assms(1,2), of clk k] assms(3)
  by (auto simp: mem_try_check_and_record_def Let_def map_of_hm split: option.splits)

interpretation mem_budget:
  attempt_budget "\<lambda>cx. mem_try_check_and_record (cx_clk cx)" clients "unat m" w
    "\<lambda>k t. mem_inv clients m w" mem_window "\<lambda>cx. cx_clk cx 0" "\<lambda>cx. cx_clk cx 1"
  for clients m w
proof
  fix L :: memory_rate_limiter and ip cx
  assume inv: "mem_inv clients m w L"
  have W: "window_duration L = w" "0 < w" using inv by (simp_all add: mem_inv_def)
  {
    fix t t'
    assume "t \<le> (t' :: time)"
    show "mem_inv clients m w L" by (rule inv)
    show "mem_window t' ip L =
        (case mem_window t ip L of None \<Rightarrow> None
         | Some (n, d) \<Rightarrow> if t' < d then Some (n, d) else None)"
      using W \<open>t \<le> t'\<close>
      by (auto simp: mem_window_def live_entry_def duration_since_less split: option.splits)
  }
  assume ip: "ip \<in> clients" and le: "cx_clk cx 0 \<le> cx_clk cx 1"
  let ?L' = "snd (mem_try_check_and_record (cx_clk cx) ip L)"
  show inv': "mem_inv clients m w ?L'" using mem_try_inv inv ip by blast
  have W': "window_duration ?L' = w" using inv' by (simp add: mem_inv_def)
  {
    fix n d
    assume "mem_window (cx_clk cx 0) ip L = Some (n, d)" and "cx_clk cx 1 < d"
    then obtain e where e: "live_entry (cx_clk cx 0) ip L = Some e"
      "n = unat (attempts e)" "d = window_start e + w" "cx_clk cx 1 < window_start e + w"
      using W by (auto simp: mem_window_def)
    with mem_try_live [OF inv ip, of "cx_clk cx" e] W W'
    show "fst (mem_try_check_and_record (cx_clk cx) ip L) = (n < unat m) \<and>
        (\<exists>n'. mem_window (cx_clk cx 1) ip ?L' = Some (n', d) \<and>
              (if n < unat m then n' = Suc n else n \<le> n'))"
      by (auto simp: mem_window_def live_entry_def duration_since_less word_less_nat_alt
                     unat_Suc_less)
  }
  {
    assume "mem_window (cx_clk cx 0) ip L = None"
    then have "live_entry (cx_clk cx 0) ip L = None" by (simp add: mem_window_def)
    from mem_try_fresh [OF inv ip, of "cx_clk cx"] this W W'
    show "fst (mem_try_check_and_record (cx_clk cx) ip L) = (0 < unat m) \<and>
        (\<exists>n' d. mem_window (cx_clk cx 1) ip ?L' = Some (n', d) \<and> d = cx_clk cx 1 + w \<and>
              (0 < unat m \<longrightarrow> n' = 1))"
      by (auto simp: mem_window_def live_entry_def duration_since_def word_less_nat_alt)
  }
  {
    fix ip'
    assume "ip' \<noteq> ip"
    from mem_try_other [OF inv ip this, of "cx_clk cx"] W W' le
    show "mem_window (cx_clk cx 1) ip' ?L' = mem_window (cx_clk cx 1) ip' L"
      by (auto simp: mem_window_def live_entry_def duration_since_less split: option.splits)
  }
qed



lemma run_attempts_calls: "map fst (fst (run_attempts attempt calls s)) = map snd calls"
  by (induction calls arbitrary: s) (auto simp: case_prod_beta)

lemma granted_no_calls:
  assumes "ip \<notin> snd ` set calls"
  shows "granted ip (fst (run_attempts attempt calls s)) = 0 \<and> calls_of ip calls = 0"
proof -
  have "ip \<notin> fst ` set (fst (run_attempts attempt calls s))"
    using assms by (metis list.set_map run_attempts_calls)
  then have "x \<noteq> (ip, True)" if "x \<in> set (fst (run_attempts attempt calls s))" for x
    using that by force
  then show ?thesis
    using assms by (auto simp: granted_def calls_of_def filter_empty_conv)
qed

lemma mem_inv_new:
  "0 < window_seconds \<Longrightarrow> finite clients \<Longrightarrow> card clients \<le> MAX_ENTRIES \<Longrightarrow>
   mem_inv clients m (secs (uint window_seconds)) (MemoryRateLimiter_new m window_seconds)"
  by (auto simp: mem_inv_def mem_wf_def MemoryRateLimiter_new_def hm_ok_def secs_def
                 word_less_def)

text \<open>
  C9. The in-memory limiter enforces its budget exactly.  Whatever the interleaving of
  calls from other addresses, as long as no more addresses show up than the limiter
  tracks, the calls an address makes within one window of a fresh limiter are granted
  until \<open>max_attempts\<close> of them were, and then refused.
\<close>

theorem memory_limiter_exact_budget:
  assumes "0 < window_seconds"
    and "timeline (\<lambda>cx. cx_clk cx 0) (\<lambda>cx. cx_clk cx 1) t (t + secs (uint window_seconds)) calls"
    and "card (snd ` set calls) \<le> MAX_ENTRIES"
  shows "granted ip (fst (run_attempts (rl_try_check_and_record memory_limiter) calls
                            (MemoryRateLimiter_new m window_seconds)))
           = min (calls_of ip calls) (unat m)"
proof (cases "ip \<in> snd ` set calls")
  case True
  have "mem_inv (snd ` set calls) m (secs (uint window_seconds)) (MemoryRateLimiter_new m window_seconds)"
    using assms mem_inv_new by simp
  then show ?thesis
    using mem_budget.granted_from_fresh
            [of "snd ` set calls" m "secs (uint window_seconds)"
                "MemoryRateLimiter_new m window_seconds" t ip t calls] assms True
    by (simp add: memory_limiter_def mem_window_def live_entry_def MemoryRateLimiter_new_def)
next
  case False
  then show ?thesis by (simp add: granted_no_calls)
qed


theorem memory_limiter_exact_budget_witness:
  "granted (V4 1 2 3 4)
     (fst (run_attempts (rl_try_check_and_record memory_limiter)
             [(ctx_at 0, V4 1 2 3 4), (ctx_at 1, V4 9 9 9 9), (ctx_at 2, V4 1 2 3 4),
              (ctx_at 3, V4 1 2 3 4)]
             (MemoryRateLimiter_new 2 60))) = 2"
  using memory_limiter_exact_budget
          [of 60 0 "[(ctx_at 0, V4 1 2 3 4), (ctx_at 1, V4 9 9 9 9), (ctx_at 2, V4 1 2 3 4),
                     (ctx_at 3, V4 1 2 3 4)]" "V4 1 2 3 4" 2]
  by (simp add: secs_def calls_of_def MAX_ENTRIES_def card_insert_if del: run_attempts.simps)

text \<open>
  \<open>remaining_attempts\<close> is the number of attempts that will still be granted: the
  calls an address makes from the moment of the reading to the end of its window (or,
  if it has none, within one window length) are granted until that many were.
\<close>

theorem remaining_attempts_exact:
  assumes "mem_inv clients m w L" and "ip \<in> clients" and "snd ` set calls \<subseteq> clients"
    and "timeline (\<lambda>cx. cx_clk cx 0) (\<lambda>cx. cx_clk cx 1) t
           (case mem_window t ip L of None \<Rightarrow> t + w | Some (n, d) \<Rightarrow> d) calls"
  shows "granted ip (fst (run_attempts (rl_try_check_and_record memory_limiter) calls L))
           = min (calls_of ip calls) (unat (mem_remaining_attempts (\<lambda>_. t) ip L))"
proof -
  have m: "max_attempts L = m" "window_duration L = w"
    using assms(1) by (simp_all add: mem_inv_def)
  show ?thesis
  proof (cases "live_entry t ip L")
    case None
    then have "mem_remaining_attempts (\<lambda>_. t) ip L = m"
      using m by (auto simp: mem_remaining_attempts_def live_entry_def split: option.splits if_splits)
    with None show ?thesis
      using mem_budget.granted_from_fresh [OF assms(1), of t ip t calls] assms
      by (simp add: memory_limiter_def mem_window_def)
  next
    case (Some e)
    then have "mem_remaining_attempts (\<lambda>_. t) ip L = saturating_sub m (attempts e)"
      using m by (auto simp: mem_remaining_attempts_def live_entry_def split: option.splits if_splits)
    with Some show ?thesis
      using mem_budget.granted_in_window
              [OF assms(1), of t ip "unat (attempts e)" "window_start e + w" calls] assms m
      by (simp add: memory_limiter_def mem_window_def unat_saturating_sub)
  qed
qed

theorem remaining_attempts_exact_witness:
  "granted (V4 1 2 3 4)
     (fst (run_attempts (rl_try_check_and_record memory_limiter)
             [(ctx_at 5, V4 1 2 3 4), (ctx_at 6, V4 1 2 3 4)]
             \<lparr>max_attempts = 3, window_duration = 60,
              entries = [(V4 1 2 3 4, \<lparr>attempts = 2, window_start = 0\<rparr>)]\<rparr>)) = 1"
  using remaining_attempts_exact
          [of "{V4 1 2 3 4}" 3 60
              "\<lparr>max_attempts = 3, window_duration = 60,
                entries = [(V4 1 2 3 4, \<lparr>attempts = 2, window_start = 0\<rparr>)]\<rparr>" "V4 1 2 3 4"
              "[(ctx_at 5, V4 1 2 3 4), (ctx_at 6, V4 1 2 3 4)]" 5]
  by (simp add: mem_inv_def mem_wf_def hm_ok_def MAX_ENTRIES_def calls_of_def mem_window_def
                live_entry_def duration_since_def mem_remaining_attempts_def saturating_sub_def)


section \<open>Bounded memory\<close>

text \<open>The states of a limiter: what its operations make of a fresh one.\<close>

inductive mem_reachable :: "u32 \<Rightarrow> u64 \<Rightarrow> memory_rate_limiter \<Rightarrow> bool" for m window_seconds where
  new: "mem_reachable m window_seconds (MemoryRateLimiter_new m window_seconds)"
| check: "mem_reachable m window_seconds L \<Longrightarrow>
    mem_reachable m window_seconds (snd (mem_check clk ip L))"
| record_attempt: "mem_reachable m window_seconds L \<Longrightarrow>
    mem_reachable m window_seconds (mem_record_attempt clk ip L)"
| try_check_and_record: "mem_reachable m window_seconds L \<Longrightarrow>
    mem_reachable m window_seconds (snd (mem_try_check_and_record clk ip L))"
| reset: "mem_reachable m window_seconds L \<Longrightarrow> mem_reachable m window_seconds (mem_reset ip L)"

lemma mem_ops_settings:
  "max_attempts (snd (mem_check clk ip L)) = max_attempts L"
  "window_duration (snd (mem_check clk ip L)) = window_duration L"
  "max_attempts (mem_record_attempt clk ip L) = max_attempts L"
  "window_duration (mem_record_attempt clk ip L) = window_duration L"
  "max_attempts (snd (mem_try_check_and_record clk ip L)) = max_attempts L"
  "window_duration (snd (mem_try_check_and_record clk ip L)) = window_duration L"
  "max_attempts (mem_reset ip L) = max_attempts L"
  "window_duration (mem_reset ip L) = window_duration L"
  by (auto simp: mem_check_def mem_record_attempt_def mem_try_check_and_record_def mem_reset_def
                 Let_def split: option.splits)

text \<open>
  C31. The memory of the limiter is bounded: whatever addresses it is asked about, in
  whatever order and at whatever times, it never holds more than \<open>MAX_ENTRIES\<close> entries,
  never two for one address, and never loses its settings.
\<close>

theorem memory_limiter_bounded:
  assumes "mem_reachable m window_seconds L"
  shows "length (entries L) \<le> MAX_ENTRIES \<and> distinct (map fst (entries L)) \<and>
         max_attempts L = m \<and> window_duration L = secs (uint window_seconds)"
proof -
  have "mem_wf L \<and> max_attempts L = m \<and> window_duration L = secs (uint window_seconds)"
    using assms
    by induction (simp_all add: mem_ops_wf mem_ops_settings,
                  simp_all add: mem_wf_def hm_ok_def MemoryRateLimiter_new_def)
  then show ?thesis by (simp add: mem_wf_def hm_ok_def)
qed

theorem memory_limiter_bounded_witness:
  "length (entries (mem_record_attempt (\<lambda>_. 7) (V4 1 2 3 4) (MemoryRateLimiter_new 5 60)))
     \<le> MAX_ENTRIES"
  using memory_limiter_bounded
          [OF mem_reachable.record_attempt [OF mem_reachable.new [of 5 60], of "\<lambda>_. 7" "V4 1 2 3 4"]]
  by simp



section \<open>The Redis limiter meets the contract too\<close>

definition red_window ::
  "'r redis_view \<Rightarrow> time \<Rightarrow> ip_addr \<Rightarrow> redis_rate_limiter \<times> 'r \<Rightarrow> (nat \<times> time) option" where
  "red_window V t ip s =
     (case s of (L, r) \<Rightarrow>
        (case V t (rr_key L ip) r of
           Some (Int_Value n, Some e) \<Rightarrow> Some (nat n, e)
         | _ \<Rightarrow> None))"

text \<open>The counters of the clients are counters with an expiry, and far from overflow.\<close>

definition counter_ok :: "nat \<Rightarrow> (redis_value \<times> time option) option \<Rightarrow> bool" where
  "counter_ok k x =
     (case x of None \<Rightarrow> True
      | Some (Int_Value n, Some e) \<Rightarrow> 1 \<le> n \<and> n + int k < 2 ^ 62
      | _ \<Rightarrow> False)"

definition red_inv ::
  "'r redis_view \<Rightarrow> ip_addr set \<Rightarrow> u32 \<Rightarrow> u64 \<Rightarrow> string \<Rightarrow> nat \<Rightarrow> time \<Rightarrow> redis_rate_limiter \<times> 'r \<Rightarrow> bool" where
  "red_inv V clients m window_seconds prefix k t s \<longleftrightarrow>
     (case s of (L, r) \<Rightarrow>
        rr_max_attempts L = m \<and> rr_window_seconds L = window_seconds \<and> rr_key_prefix L = prefix \<and>
        0 < window_seconds \<and> window_seconds < 2 ^ 31 \<and> inj_on show_ip clients \<and> int k < 2 ^ 61 \<and>
        (\<forall>ip \<in> clients. \<forall>t' \<ge> t. counter_ok k (V t' (rr_key L ip) r)))"

lemma rr_key_inj:
  "inj_on show_ip clients \<Longrightarrow> ip \<in> clients \<Longrightarrow> ip' \<in> clients \<Longrightarrow>
   rr_key L ip = rr_key L ip' \<longleftrightarrow> ip = ip'"
  by (auto simp: rr_key_def dest: inj_onD)

lemma counter_ok_seen_at: "counter_ok k x \<Longrightarrow> counter_ok k (seen_at t x)"
  by (auto simp: counter_ok_def seen_at_def split: option.splits prod.splits redis_value.splits)

lemma counter_ok_less: "counter_ok (Suc k) x \<Longrightarrow> counter_ok k x"
  by (auto simp: counter_ok_def split: option.splits prod.splits redis_value.splits)

lemma script_live:
  assumes C: "redis_contract R V" and v: "V t key r = Some (Int_Value n, Some e)"
    and n: "1 \<le> n" "n < 2 ^ 62"
  shows "\<exists>r'. try_check_and_record_script R t key ttl m r = (Some (if n < uint m then 1 else 0), r') \<and>
              sets_key V t key (Some (Int_Value (n + 1), Some e)) r r'"
proof -
  have "fst (INCR R t key r) = Some (n + 1) \<and>
        sets_key V t key (Some (Int_Value (n + 1), Some e)) r (snd (INCR R t key r))"
    using incr_counter [of R V t key r n "Some e"] C v n by (simp add: redis_contract_def)
  then show ?thesis
    using n by (auto simp: try_check_and_record_script_def split: prod.splits)
qed

lemma script_fresh:
  assumes C: "redis_contract R V" and v: "V t key r = None"
    and ttl: "0 < ttl" "ttl < 2 ^ 31"
  shows "\<exists>r'. try_check_and_record_script R t key ttl m r = (Some (if 0 < uint m then 1 else 0), r') \<and>
              sets_key V t key (Some (Int_Value 1, Some (t + secs (uint ttl)))) r r'"
proof -
  obtain r1 where i: "INCR R t key r = (Some 1, r1)"
    and s1: "sets_key V t key (Some (Int_Value 1, None)) r r1"
    using C v incr_missing [of R V t key r] unfolding redis_contract_def by (metis prod.collapse)
  have "V t key r1 = Some (Int_Value 1, None)"
    using sets_keyD(1) [OF s1, of t] by (simp add: seen_at_def)
  then obtain r2 where x: "EXPIRE R t key ttl r1 = (Some 1, r2)"
    and s2: "sets_key V t key (Some (Int_Value 1, Some (t + secs (uint ttl)))) r1 r2"
    using C ttl unfolding redis_contract_def expire_law_def by (metis prod.collapse)
  have "sets_key V t key (Some (Int_Value 1, Some (t + secs (uint ttl)))) r r2"
    using s1 s2 by (auto simp: sets_key_def)
  moreover have "(1 \<le> uint m) = (0 < uint m)" by auto
  ultimately show ?thesis
    using i x by (simp add: try_check_and_record_script_def)
qed

lemma red_try_up:
  assumes "try_check_and_record_script R (cx_srv cx) (rr_key L ip) (rr_window_seconds L)
             (rr_max_attempts L) r = (Some (if ok then 1 else 0), r')"
  shows "red_try_check_and_record R (cx\<lparr>cx_link := Up\<rparr>) ip (L, r) = (ok, L, r')"
  using assms by (simp add: red_try_check_and_record_def)

lemma red_inv_client:
  assumes "red_inv V clients m ws prefix k t (L, r)" and "ip \<in> clients" and "t \<le> t'"
  shows "counter_ok k (V t' (rr_key L ip) r)"
  using assms by (auto simp: red_inv_def)

lemma red_try_fresh:
  assumes "redis_contract R V" and "red_inv V clients m ws prefix (Suc k) (cx_srv cx) (L, r)"
    and "V (cx_srv cx) (rr_key L ip) r = None"
  shows "\<exists>r'. red_try_check_and_record R (cx\<lparr>cx_link := Up\<rparr>) ip (L, r) = (0 < uint m, L, r') \<and>
           sets_key V (cx_srv cx) (rr_key L ip)
             (Some (Int_Value 1, Some (cx_srv cx + secs (uint ws)))) r r'"
proof -
  have L: "rr_window_seconds L = ws" "rr_max_attempts L = m" "0 < ws" "ws < 2 ^ 31"
    using assms(2) unfolding red_inv_def by auto
  obtain r' where "try_check_and_record_script R (cx_srv cx) (rr_key L ip) ws m r =
         (Some (if 0 < uint m then 1 else 0), r')"
    and s: "sets_key V (cx_srv cx) (rr_key L ip)
         (Some (Int_Value 1, Some (cx_srv cx + secs (uint ws)))) r r'"
    using script_fresh [OF assms(1,3) L(3,4), of m] by blast
  then show ?thesis
    using red_try_up [of R cx L ip r "0 < uint m" r'] L(1,2) by auto
qed

lemma red_try_live:
  assumes "redis_contract R V" and "red_inv V clients m ws prefix (Suc k) (cx_srv cx) (L, r)"
    and "V (cx_srv cx) (rr_key L ip) r = Some (Int_Value n, Some e)" and "1 \<le> n" and "n < 2 ^ 62"
  shows "\<exists>r'. red_try_check_and_record R (cx\<lparr>cx_link := Up\<rparr>) ip (L, r) = (n < uint m, L, r') \<and>
           sets_key V (cx_srv cx) (rr_key L ip) (Some (Int_Value (n + 1), Some e)) r r'"
proof -
  have L: "rr_window_seconds L = ws" "rr_max_attempts L = m"
    using assms(2) unfolding red_inv_def by auto
  obtain r' where "try_check_and_record_script R (cx_srv cx) (rr_key L ip) ws m r =
         (Some (if n < uint m then 1 else 0), r')"
    and s: "sets_key V (cx_srv cx) (rr_key L ip) (Some (Int_Value (n + 1), Some e)) r r'"
    using script_live [OF assms(1,3-5), of ws m] by blast
  then show ?thesis
    using red_try_up [of R cx L ip r "n < uint m" r'] L by auto
qed

text \<open>Either way the client's counter is in order afterwards and no other key changes.\<close>

lemma counter_cases:
  assumes "counter_ok k x"
  obtains (missing) "x = None"
  | (counter) n e where "x = Some (Int_Value n, Some e)" "1 \<le> n" "n + int k < 2 ^ 62"
  using assms unfolding counter_ok_def
  by (auto split: option.splits prod.splits redis_value.splits)

lemma red_try_keys:
  assumes "redis_contract R V" and inv: "red_inv V clients m ws prefix (Suc k) (cx_srv cx) (L, r)"
    and "ip \<in> clients"
  shows "\<exists>ok x r'. red_try_check_and_record R (cx\<lparr>cx_link := Up\<rparr>) ip (L, r) = (ok, L, r') \<and>
           sets_key V (cx_srv cx) (rr_key L ip) x r r' \<and> counter_ok k x"
  using red_inv_client [OF inv assms(3) order_refl]
proof (cases rule: counter_cases)
  case missing
  have "int (Suc k) < 2 ^ 61" using inv unfolding red_inv_def by simp
  then have "counter_ok k (Some (Int_Value 1, Some (cx_srv cx + secs (uint ws))))"
    unfolding counter_ok_def by simp
  then show ?thesis using red_try_fresh [OF assms(1,2) missing] by blast
next
  case (counter n e)
  then have "counter_ok k (Some (Int_Value (n + 1), Some e))" "n < 2 ^ 62"
    unfolding counter_ok_def by simp_all
  then show ?thesis using red_try_live [OF assms(1,2) counter(1,2)] by blast
qed

lemma red_try_inv:
  assumes C: "redis_contract R V" and inv: "red_inv V clients m ws prefix (Suc k) (cx_srv cx) s"
    and ip: "ip \<in> clients"
  shows "red_inv V clients m ws prefix k (cx_srv cx)
           (snd (red_try_check_and_record R (cx\<lparr>cx_link := Up\<rparr>) ip s))"
proof -
  obtain L r where s: "s = (L, r)" by fastforce
  obtain x r' ok where t: "red_try_check_and_record R (cx\<lparr>cx_link := Up\<rparr>) ip (L, r) = (ok, L, r')"
    and k: "sets_key V (cx_srv cx) (rr_key L ip) x r r'" "counter_ok k x"
    using red_try_keys [OF C inv [unfolded s] ip] by blast
  have "counter_ok k (V t' (rr_key L ip') r')" if "ip' \<in> clients" "cx_srv cx \<le> t'" for ip' t'
  proof (cases "ip' = ip")
    case True
    then show ?thesis using sets_keyD(1) [OF k(1) that(2)] k(2) counter_ok_seen_at by simp
  next
    case False
    have "inj_on show_ip clients" using inv unfolding red_inv_def s by simp
    with False have "V t' (rr_key L ip') r' = V t' (rr_key L ip') r"
      using sets_keyD(2) [OF k(1) that(2)] rr_key_inj ip that(1) by metis
    then show ?thesis
      using red_inv_client [OF inv [unfolded s] that] counter_ok_less by simp
  qed
  then show ?thesis using inv t unfolding red_inv_def s by simp
qed

lemma redis_budget:
  assumes C: "redis_contract R V"
  shows "attempt_budget (\<lambda>cx. red_try_check_and_record R (cx\<lparr>cx_link := Up\<rparr>)) clients (unat m)
           (secs (uint ws)) (red_inv V clients m ws prefix) (red_window V) cx_srv cx_srv"
proof (rule attempt_budget.intro, goal_cases)
  case (1 k cx s ip)
  then show ?case using red_try_inv C by blast
next
  case (2 k t s t')
  then show ?case unfolding red_inv_def by (auto split: prod.splits)
next
  case (3 k t s t' ip)
  obtain L r where s: "s = (L, r)" by fastforce
  have "V t' (rr_key L ip) r = seen_at t' (V t (rr_key L ip) r)"
    using C 3(2) unfolding redis_contract_def expiry_law_def by blast
  then show ?case unfolding s red_window_def seen_at_def
    by (auto split: option.splits prod.splits redis_value.splits if_splits)
next
  case (4 k cx s ip n d)
  obtain L r where s: "s = (L, r)" by fastforce
  from red_inv_client [OF 4(1) [unfolded s] 4(2) order_refl] 4(4) s obtain i
    where v: "V (cx_srv cx) (rr_key L ip) r = Some (Int_Value i, Some d)" "n = nat i"
      and i: "1 \<le> i" "i < 2 ^ 62"
    by (cases rule: counter_cases) (auto simp: red_window_def)
  obtain r' where t: "red_try_check_and_record R (cx\<lparr>cx_link := Up\<rparr>) ip (L, r) = (i < uint m, L, r')"
    and k: "sets_key V (cx_srv cx) (rr_key L ip) (Some (Int_Value (i + 1), Some d)) r r'"
    using red_try_live [OF C 4(1) [unfolded s] v(1) i] by blast
  have "V (cx_srv cx) (rr_key L ip) r' = Some (Int_Value (i + 1), Some d)"
    using sets_keyD(1) [OF k order_refl] 4(5) unfolding seen_at_def by simp
  then show ?case using s t v i(1) by (auto simp: red_window_def nat_less_iff)
next
  case (5 k cx s ip)
  obtain L r where s: "s = (L, r)" by fastforce
  from red_inv_client [OF 5(1) [unfolded s] 5(2) order_refl] 5(4) s
  have v: "V (cx_srv cx) (rr_key L ip) r = None"
    by (cases rule: counter_cases) (auto simp: red_window_def)
  obtain r' where t: "red_try_check_and_record R (cx\<lparr>cx_link := Up\<rparr>) ip (L, r) = (0 < uint m, L, r')"
    and k: "sets_key V (cx_srv cx) (rr_key L ip)
              (Some (Int_Value 1, Some (cx_srv cx + secs (uint ws)))) r r'"
    using red_try_fresh [OF C 5(1) [unfolded s] v] by blast
  have "0 < ws" using 5(1) unfolding red_inv_def s by simp
  then have "0 < secs (uint ws)" by (simp add: secs_def word_less_def)
  then have "V (cx_srv cx) (rr_key L ip) r' = Some (Int_Value 1, Some (cx_srv cx + secs (uint ws)))"
    using sets_keyD(1) [OF k order_refl] by (simp add: seen_at_def)
  moreover have "(0 < uint m) = (0 < unat m)"
    using of_nat_0_less_iff [of "unat m", where ?'a = int] by simp
  ultimately show ?case using s t by (auto simp: red_window_def)
next
  case (6 k cx s ip ip')
  obtain L r where s: "s = (L, r)" by fastforce
  obtain x r' ok where t: "red_try_check_and_record R (cx\<lparr>cx_link := Up\<rparr>) ip (L, r) = (ok, L, r')"
    and k: "sets_key V (cx_srv cx) (rr_key L ip) x r r'"
    using red_try_keys [OF C 6(1) [unfolded s] 6(2)] by blast
  have "inj_on show_ip clients" using 6(1) unfolding red_inv_def s by simp
  then have "rr_key L ip' \<noteq> rr_key L ip" using rr_key_inj 6 by metis
  then show ?case
    using s t sets_keyD(2) [OF k order_refl] by (simp add: red_window_def)
qed



text \<open>
  C20. The Redis limiter enforces the same budget as the in-memory one while the server
  is reachable: from a moment an address has no live counter on, the calls it makes
  within one window are granted until \<open>max_attempts\<close> of them were, whatever other
  addresses do.
\<close>

theorem redis_limiter_exact_budget:
  assumes "redis_contract R V"
    and "red_inv V clients m window_seconds prefix (length calls) t (L, r)"
    and "V t (rr_key L ip) r = None"
    and "timeline cx_srv cx_srv t (t + secs (uint window_seconds)) calls"
    and "snd ` set calls \<subseteq> clients" and "ip \<in> clients"
  shows "granted ip (fst (run_attempts (\<lambda>cx. rl_try_check_and_record (redis_limiter R) (cx\<lparr>cx_link := Up\<rparr>))
                            calls (L, r)))
           = min (calls_of ip calls) (unat m)"
  using attempt_budget.granted_from_fresh
          [OF redis_budget [OF assms(1)], of clients m window_seconds prefix calls t "(L, r)" ip t]
        assms(2-6)
  by (simp add: redis_limiter_def red_window_def)

theorem redis_limiter_exact_budget_witness:
  "granted (V4 1 2 3 4)
     (fst (run_attempts
             (\<lambda>cx. rl_try_check_and_record (redis_limiter store_server) (cx\<lparr>cx_link := Up\<rparr>))
             [(ctx_at 0, V4 1 2 3 4), (ctx_at 1, V4 1 2 3 4), (ctx_at 2, V4 1 2 3 4)]
             (RedisRateLimiter_new 2 60 ''login'', (\<lambda>_. None)))) = 2"
proof -
  let ?L = "RedisRateLimiter_new 2 60 ''login''"
  let ?calls = "[(ctx_at 0, V4 1 2 3 4), (ctx_at 1, V4 1 2 3 4), (ctx_at 2, V4 1 2 3 4)]"
  have "red_inv store_view {V4 1 2 3 4} 2 60 ''login'' (length ?calls) 0 (?L, \<lambda>_. None)"
    by (simp add: red_inv_def RedisRateLimiter_new_def store_view_def counter_ok_def)
  moreover have "timeline cx_srv cx_srv 0 (0 + secs (uint (60 :: u64))) ?calls"
    by (simp add: secs_def)
  moreover have "min (calls_of (V4 1 2 3 4) ?calls) (unat (2 :: u32)) = 2"
    by (simp add: calls_of_def)
  ultimately show ?thesis
    using redis_limiter_exact_budget
            [OF store_contract, of "{V4 1 2 3 4}" 2 60 "''login''" ?calls 0 ?L "\<lambda>_. None"
                "V4 1 2 3 4"]
    by (simp only: store_view_def seen_at_None) simp
qed

fun down :: "link \<Rightarrow> bool" where
  "down Up = False"
| "down (Failed b) = True"
| "down (Timed_Out b) = True"

lemma red_try_down:
  assumes "down (cx_link cx)"
  shows "\<exists>r'. red_try_check_and_record R cx ip (L, r) =
           (fst (mem_try_check_and_record (cx_clk cx) ip (rr_shadow L)),
            with_shadow (snd (mem_try_check_and_record (cx_clk cx) ip (rr_shadow L)))
              (record_redis_error L), r')"
  using assms
  by (cases "cx_link cx") (auto simp: red_try_check_and_record_def split: prod.splits)

text \<open>
  C21. An outage does not switch the limit off.  While every call fails or times out
  (whether or not the server executed it) the Redis limiter answers exactly as an
  in-memory limiter with its settings would, starting from its shadow; each call is
  counted as an error.
\<close>

theorem redis_limiter_outage:
  assumes "\<forall>c \<in> set calls. down (cx_link (fst c))"
  shows "fst (run_attempts (rl_try_check_and_record (redis_limiter R)) calls (L, r)) =
           fst (run_attempts (rl_try_check_and_record memory_limiter) calls (rr_shadow L)) \<and>
         rr_redis_error_count (fst (snd (run_attempts (rl_try_check_and_record (redis_limiter R)) calls (L, r))))
           = rr_redis_error_count L + of_nat (length calls)"
  using assms
proof (induction calls arbitrary: L r)
  case Nil
  then show ?case by simp
next
  case (Cons c calls)
  obtain cx ip where c: "c = (cx, ip)" by fastforce
  obtain ok M where m: "mem_try_check_and_record (cx_clk cx) ip (rr_shadow L) = (ok, M)" by fastforce
  obtain r' where t: "red_try_check_and_record R cx ip (L, r) =
      (ok, with_shadow M (record_redis_error L), r')"
    using red_try_down [of cx R ip L r] Cons.prems c m by auto
  show ?case
    using Cons.IH [of "with_shadow M (record_redis_error L)" r'] Cons.prems c m t
    by (simp add: redis_limiter_def memory_limiter_def case_prod_beta with_shadow_def
                  record_redis_error_def)
qed

theorem redis_limiter_outage_witness:
  "fst (run_attempts (rl_try_check_and_record (redis_limiter store_server))
          [(\<lparr>cx_clk = (\<lambda>_. 0), cx_srv = 0, cx_link = Timed_Out True\<rparr>, V4 1 2 3 4),
           (\<lparr>cx_clk = (\<lambda>_. 1), cx_srv = 1, cx_link = Failed False\<rparr>, V4 1 2 3 4)]
          (RedisRateLimiter_new 1 60 ''login'', (\<lambda>_. None)))
     = [(V4 1 2 3 4, True), (V4 1 2 3 4, False)]"
proof -
  let ?calls = "[(\<lparr>cx_clk = (\<lambda>_. 0), cx_srv = 0, cx_link = Timed_Out True\<rparr>, V4 1 2 3 4),
           (\<lparr>cx_clk = (\<lambda>_. 1), cx_srv = 1, cx_link = Failed False\<rparr>, V4 1 2 3 4)]"
  have "fst (run_attempts (rl_try_check_and_record memory_limiter) ?calls (MemoryRateLimiter_new 1 60))
          = [(V4 1 2 3 4, True), (V4 1 2 3 4, False)]"
    by (simp add: memory_limiter_def mem_try_check_and_record_def mem_prepare_def Let_def
                  clean_expired_def MemoryRateLimiter_new_def hm_retain_def hm_or_insert_def
                  hm_contains_def hm_modify_def evict_oldest_if_full_def MAX_ENTRIES_def
                  duration_since_def secs_def)
  then show ?thesis
    using redis_limiter_outage [of ?calls store_server "RedisRateLimiter_new 1 60 ''login''" "\<lambda>_. None"]
    by (simp add: RedisRateLimiter_new_def del: run_attempts.simps)
qed

end
