(* ===== verification/Durable_Blacklist.thy ===== *)
theory Durable_Blacklist
  imports Blacklist
begin

text \<open>
  The durable revocation list over time: an instance that revokes, looks up, flushes its
  journal and restarts, with the steps of a flush sweep interleaved with everything else
  (\<open>flush_pending\<close> holds no lock across them).  The result is that a revocation the
  service acknowledged is never lost before the token expires.
\<close>

section \<open>The instance and its steps\<close>

datatype flush_state = Idle | Flushing "(uuid \<times> int) list" "uuid list"

record 'b node =
  nd_now :: time
  nd_dur :: "'b durable"
  nd_db :: database
  nd_flush :: flush_state
  nd_accepted :: "uuid set"
  nd_local :: "uuid set"

text \<open>
  \<open>nd_accepted\<close> are the tokens whose revocation some call answered with \<open>Ok\<close>, \<open>nd_local\<close>
  those among them accepted since the last restart.  All clock readings of a step lie
  between the time before it and the time after it.
\<close>

definition ctx_between ::
  "(call_ctx \<Rightarrow> time) \<Rightarrow> (call_ctx \<Rightarrow> time) \<Rightarrow> time \<Rightarrow> time \<Rightarrow> bl_ctx \<Rightarrow> bool" where
  "ctx_between early late lo hi bx \<longleftrightarrow>
     lo \<le> hi \<and>
     (\<forall>i. lo \<le> bx_clk bx i \<and> bx_clk bx i \<le> hi) \<and>
     (\<forall>i. lo \<le> early (bx_inner bx i) \<and> early (bx_inner bx i) \<le> late (bx_inner bx i) \<and>
          late (bx_inner bx i) \<le> hi) \<and>
     (\<forall>i. lo \<le> bx_now bx i \<and> bx_now bx i \<le> hi)"

text \<open>
  \<open>deadline jti\<close> is the time from which on the token is expired anyway.  Whoever revokes
  it passes a lifetime that reaches the deadline, as the logout handler does.
\<close>

definition ttl_covers :: "(u64 \<Rightarrow> bool) \<Rightarrow> time \<Rightarrow> time \<Rightarrow> u64 \<Rightarrow> bool" where
  "ttl_covers ttl_ok d now ttl \<longleftrightarrow> d \<le> now + secs (uint ttl) \<and> ttl_ok ttl \<and> uint ttl < 2 ^ 63"

inductive durable_step ::
  "'b blacklist \<Rightarrow> (u64 \<Rightarrow> bool) \<Rightarrow> (call_ctx \<Rightarrow> time) \<Rightarrow> (call_ctx \<Rightarrow> time) \<Rightarrow> (uuid \<Rightarrow> time)
   \<Rightarrow> 'b node \<Rightarrow> 'b node \<Rightarrow> bool"
  for B ttl_ok early late deadline where
  revoke:
    "ctx_between early late (nd_now n) t bx \<Longrightarrow> ttl_covers ttl_ok (deadline jti) (nd_now n) ttl \<Longrightarrow>
     durable_revoke B bx jti ttl (nd_dur n, nd_db n) = (r, (D, d)) \<Longrightarrow>
     durable_step B ttl_ok early late deadline n
       (n\<lparr>nd_now := t, nd_dur := D, nd_db := d,
          nd_accepted := (if r = Inr () then insert jti (nd_accepted n) else nd_accepted n),
          nd_local := (if r = Inr () then insert jti (nd_local n) else nd_local n)\<rparr>)"
| query:
    "ctx_between early late (nd_now n) t bx \<Longrightarrow>
     durable_is_revoked B bx jti (nd_dur n, nd_db n) = (q, (D, d)) \<Longrightarrow>
     durable_step B ttl_ok early late deadline n (n\<lparr>nd_now := t, nd_dur := D, nd_db := d\<rparr>)"
| flush_begin:
    "ctx_between early late (nd_now n) t bx \<Longrightarrow> nd_flush n = Idle \<Longrightarrow>
     flush_batch bx (nd_db n) = (rows, d) \<Longrightarrow>
     durable_step B ttl_ok early late deadline n
       (n\<lparr>nd_now := t, nd_db := d,
          nd_flush := (case rows of Inl _ \<Rightarrow> Idle | Inr rs \<Rightarrow> Flushing rs [])\<rparr>)"
| flush_row:
    "ctx_between early late (nd_now n) t bx \<Longrightarrow> nd_flush n = Flushing ((jti, ttl) # rows) flushed \<Longrightarrow>
     bl_revoke B (bx_inner bx 0) jti (word_of_int ttl) (inner (nd_dur n)) = (r, b) \<Longrightarrow>
     durable_step B ttl_ok early late deadline n
       (n\<lparr>nd_now := t, nd_dur := (nd_dur n)\<lparr>inner := b\<rparr>,
          nd_flush := Flushing rows (if r = Inr () then flushed @ [jti] else flushed)\<rparr>)"
| flush_end:
    "ctx_between early late (nd_now n) t bx \<Longrightarrow> nd_flush n = Flushing [] flushed \<Longrightarrow>
     flush_done bx flushed (nd_dur n, nd_db n) = (e, (D, d)) \<Longrightarrow>
     durable_step B ttl_ok early late deadline n
       (n\<lparr>nd_now := t, nd_dur := D, nd_db := d, nd_flush := Idle\<rparr>)"
| restart:
    "nd_now n \<le> t \<Longrightarrow>
     durable_step B ttl_ok early late deadline n
       (n\<lparr>nd_now := t, nd_dur := durable_new (inner (nd_dur n)), nd_flush := Idle, nd_local := {}\<rparr>)"

inductive durable_reachable ::
  "'b blacklist \<Rightarrow> (u64 \<Rightarrow> bool) \<Rightarrow> (call_ctx \<Rightarrow> time) \<Rightarrow> (call_ctx \<Rightarrow> time) \<Rightarrow> (uuid \<Rightarrow> time)
   \<Rightarrow> 'b \<Rightarrow> 'b node \<Rightarrow> bool"
  for B ttl_ok early late deadline b0 where
  start: "outbox d = [] \<Longrightarrow>
    durable_reachable B ttl_ok early late deadline b0
      \<lparr>nd_now = t, nd_dur = durable_new b0, nd_db = d, nd_flush = Idle, nd_accepted = {}, nd_local = {}\<rparr>"
| step: "durable_reachable B ttl_ok early late deadline b0 n \<Longrightarrow>
    durable_step B ttl_ok early late deadline n n' \<Longrightarrow>
    durable_reachable B ttl_ok early late deadline b0 n'"


section \<open>The invariant\<close>

text \<open>A journaled revocation that still reaches the token's deadline.\<close>

definition row_ok :: "(u64 \<Rightarrow> bool) \<Rightarrow> (uuid \<Rightarrow> time) \<Rightarrow> time \<Rightarrow> outbox_row \<Rightarrow> bool" where
  "row_ok ttl_ok deadline now r \<longleftrightarrow>
     deadline (out_jti r) \<le> out_expires_at r \<and>
     out_expires_at r = out_created_at r + secs (out_ttl_secs r) \<and> out_created_at r \<le> now \<and>
     0 \<le> out_ttl_secs r \<and> out_ttl_secs r < 2 ^ 63 \<and> ttl_ok (word_of_int (out_ttl_secs r))"

definition work_ok :: "(u64 \<Rightarrow> bool) \<Rightarrow> (uuid \<Rightarrow> time) \<Rightarrow> time \<Rightarrow> uuid \<times> int \<Rightarrow> bool" where
  "work_ok ttl_ok deadline now x =
     (case x of (jti, ttl) \<Rightarrow>
        deadline jti \<le> now + secs ttl \<and> 0 \<le> ttl \<and> ttl < 2 ^ 63 \<and> ttl_ok (word_of_int ttl))"

definition pending_ok :: "time \<Rightarrow> time \<Rightarrow> pending_entry \<Rightarrow> bool" where
  "pending_ok d now e \<longleftrightarrow> added_at e \<le> now \<and> d \<le> added_at e + pe_ttl e"

section \<open>What the statements do to the journal\<close>

lemma sint_u64:
  assumes "uint (x :: u64) < 2 ^ 63"
  shows "sint x = uint x"
proof -
  have "- (2 ^ 63) \<le> uint x" by (rule order_trans [of _ 0]) simp_all
  then show ?thesis
    using signed_take_bit_int_eq_self [of 63 "uint x"] assms by (simp add: sint_uint)
qed

lemma uint_of_i64:
  assumes "0 \<le> x" and "x < 2 ^ 63"
  shows "uint (word_of_int x :: u64) = x"
proof -
  have "x < 2 ^ 64" using assms(2) by simp
  then show ?thesis using assms(1) by (simp add: take_bit_int_eq_self unsigned_of_int)
qed

lemma journal_effect:
  assumes "journal bx jti ttl d = (r, d')"
  shows "out_jti ` set (outbox d) \<subseteq> out_jti ` set (outbox d')"
    and "r = Inr () \<Longrightarrow> jti \<in> out_jti ` set (outbox d')"
    and "x \<in> set (outbox d') \<Longrightarrow> x \<in> set (outbox d) \<or>
           x = \<lparr>out_jti = jti, out_ttl_secs = sint ttl, out_created_at = bx_now bx 0,
                out_expires_at = bx_now bx 0 + secs (sint ttl)\<rparr>"
  using assms
  by (cases "bx_pg bx 0"; auto simp: journal_def insert_outbox_def split: if_splits)+

lemma row_ok_later: "row_ok ttl_ok deadline now r \<Longrightarrow> now \<le> now' \<Longrightarrow> row_ok ttl_ok deadline now' r"
  by (auto simp: row_ok_def)

lemma journal_rows:
  assumes "journal bx jti ttl d = (r, d')" and "ttl_covers ttl_ok (deadline jti) lo ttl"
    and "lo \<le> bx_now bx 0" and "bx_now bx 0 \<le> hi" and "lo \<le> hi"
    and "\<forall>x \<in> set (outbox d). row_ok ttl_ok deadline lo x"
  shows "\<forall>x \<in> set (outbox d'). row_ok ttl_ok deadline hi x"
proof
  fix x assume "x \<in> set (outbox d')"
  with journal_effect(3) [OF assms(1)] consider "x \<in> set (outbox d)"
    | "x = \<lparr>out_jti = jti, out_ttl_secs = sint ttl, out_created_at = bx_now bx 0,
            out_expires_at = bx_now bx 0 + secs (sint ttl)\<rparr>" by blast
  then show "row_ok ttl_ok deadline hi x"
  proof cases
    case 1
    then show ?thesis using assms(5,6) row_ok_later by blast
  next
    case 2
    have "sint ttl = uint ttl" using assms(2) by (simp add: ttl_covers_def sint_u64)
    then show ?thesis using 2 assms(2-4) by (simp add: row_ok_def ttl_covers_def)
  qed
qed

lemma flush_batch_rows:
  assumes "flush_batch bx d = (Inr rows, d')"
  shows "rows = map (\<lambda>r. (out_jti r, out_ttl_secs r))
                 (take FLUSH_BATCH_SIZE (sort_key out_created_at (outbox d')))"
  using assms
  by (cases "bx_pg bx 0"; cases "bx_pg bx 1")
     (auto simp: flush_batch_def delete_outbox_expired_def select_outbox_batch_def)

lemma flush_batch_table:
  assumes "flush_batch bx d = (res, d')"
  shows "outbox d' = outbox d \<or> outbox d' = filter (\<lambda>r. \<not> out_expires_at r \<le> bx_now bx 0) (outbox d)"
  using assms
  by (cases "bx_pg bx 0"; cases "bx_pg bx 1")
     (auto simp: flush_batch_def delete_outbox_expired_def select_outbox_batch_def split: if_splits)

lemma flush_batch_effect:
  assumes "flush_batch bx d = (res, d')"
  shows "x \<in> set (outbox d') \<Longrightarrow> x \<in> set (outbox d)"
    and "x \<in> set (outbox d) \<Longrightarrow> x \<notin> set (outbox d') \<Longrightarrow> out_expires_at x \<le> bx_now bx 0"
    and "res = Inr rows \<Longrightarrow> y \<in> set rows \<Longrightarrow>
           \<exists>x \<in> set (outbox d'). y = (out_jti x, out_ttl_secs x)"
proof -
  show "x \<in> set (outbox d') \<Longrightarrow> x \<in> set (outbox d)"
    "x \<in> set (outbox d) \<Longrightarrow> x \<notin> set (outbox d') \<Longrightarrow> out_expires_at x \<le> bx_now bx 0"
    using flush_batch_table [OF assms] by auto
  assume "res = Inr rows" and y: "y \<in> set rows"
  with assms have "rows = map (\<lambda>r. (out_jti r, out_ttl_secs r))
      (take FLUSH_BATCH_SIZE (sort_key out_created_at (outbox d')))"
    using flush_batch_rows by simp
  with y obtain x where "x \<in> set (take FLUSH_BATCH_SIZE (sort_key out_created_at (outbox d')))"
    "y = (out_jti x, out_ttl_secs x)" by auto
  then show "\<exists>x \<in> set (outbox d'). y = (out_jti x, out_ttl_secs x)"
    by (metis in_set_takeD set_sort)
qed

lemma flush_done_effect:
  assumes "flush_done bx flushed (D, d) = (e, (D', d'))"
  shows "inner D' = inner D"
    and "x \<in> set (outbox d') \<Longrightarrow> x \<in> set (outbox d)"
    and "x \<in> set (outbox d) \<Longrightarrow> x \<notin> set (outbox d') \<Longrightarrow> out_jti x \<in> set flushed"
    and "pending D' = pending D \<or>
         pending D' = hm_retain (\<lambda>jti en. jti \<notin> set flushed \<and> entry_live (bx_clk bx 0) en) (pending D)"
  using assms
  by (cases "bx_pg bx 2"; auto simp: flush_done_def delete_outbox_any_def split: if_splits)+

section \<open>Every step keeps the invariant\<close>

context revocation_backend
begin

definition safe :: "(uuid \<Rightarrow> time) \<Rightarrow> time \<Rightarrow> uuid \<Rightarrow> 'b \<Rightarrow> bool" where
  "safe deadline now jti b \<longleftrightarrow> deadline jti \<le> now \<or> denied (deadline jti - 1) jti b"

definition flush_inv :: "(uuid \<Rightarrow> time) \<Rightarrow> time \<Rightarrow> flush_state \<Rightarrow> 'b \<Rightarrow> bool" where
  "flush_inv deadline now f b =
     (case f of Idle \<Rightarrow> True
      | Flushing rows flushed \<Rightarrow>
          (\<forall>x \<in> set rows. work_ok ttl_ok deadline now x) \<and>
          (\<forall>jti \<in> set flushed. safe deadline now jti b))"

definition accepted_inv :: "(uuid \<Rightarrow> time) \<Rightarrow> time \<Rightarrow> uuid set \<Rightarrow> 'b \<Rightarrow> database \<Rightarrow> bool" where
  "accepted_inv deadline now A b d \<longleftrightarrow>
     (\<forall>jti \<in> A. safe deadline now jti b \<or> jti \<in> out_jti ` set (outbox d))"

definition local_inv :: "(uuid \<Rightarrow> time) \<Rightarrow> time \<Rightarrow> uuid set \<Rightarrow> 'b durable \<Rightarrow> bool" where
  "local_inv deadline now A D \<longleftrightarrow>
     (\<forall>jti \<in> A. safe deadline now jti (inner D) \<or>
        (\<exists>e. map_of (pending D) jti = Some e \<and> pending_ok (deadline jti) now e))"

definition node_inv :: "(uuid \<Rightarrow> time) \<Rightarrow> 'b node \<Rightarrow> bool" where
  "node_inv deadline n \<longleftrightarrow>
     ok (inner (nd_dur n)) \<and> hm_ok (pending (nd_dur n)) \<and>
     (\<forall>r \<in> set (outbox (nd_db n)). row_ok ttl_ok deadline (nd_now n) r) \<and>
     flush_inv deadline (nd_now n) (nd_flush n) (inner (nd_dur n)) \<and>
     accepted_inv deadline (nd_now n) (nd_accepted n) (inner (nd_dur n)) (nd_db n) \<and>
     local_inv deadline (nd_now n) (nd_local n) (nd_dur n)"

lemma safe_later: "safe deadline now jti b \<Longrightarrow> now \<le> now' \<Longrightarrow> safe deadline now' jti b"
  by (auto simp: safe_def)

lemma safe_revoke:
  assumes "ok b" and "safe deadline lo jti b" and "lo \<le> early cx" and "late cx \<le> hi"
    and "early cx \<le> late cx" and "ttl_ok ttl" and "jti' = jti \<longrightarrow> deadline jti \<le> lo + secs (uint ttl)"
  shows "safe deadline hi jti (snd (bl_revoke B cx jti' ttl b))"
proof (cases "deadline jti \<le> hi")
  case False
  then have "denied (deadline jti - 1) jti b"
    using assms(2-5) by (simp add: safe_def)
  then have "denied (deadline jti - 1) jti (snd (bl_revoke B cx jti' ttl b))"
    using False assms by (intro revoke_keeps) auto
  then show ?thesis by (simp add: safe_def)
qed (simp add: safe_def)

lemma safe_revoked:
  assumes "ok b" and "fst (bl_revoke B cx jti ttl b) = Inr ()" and "lo \<le> early cx" and "late cx \<le> hi"
    and "ttl_ok ttl" and "deadline jti \<le> lo + secs (uint ttl)"
  shows "safe deadline hi jti (snd (bl_revoke B cx jti ttl b))"
proof (cases "deadline jti \<le> hi")
  case False
  then have "denied (deadline jti - 1) jti (snd (bl_revoke B cx jti ttl b))"
    using assms by (intro revoke_denies) auto
  then show ?thesis by (simp add: safe_def)
qed (simp add: safe_def)

lemma safe_query:
  assumes "ok b" and "safe deadline lo jti b" and "lo \<le> early cx" and "early cx \<le> late cx"
    and "late cx \<le> hi"
  shows "safe deadline hi jti (snd (bl_is_revoked B cx jti' b))"
proof (cases "deadline jti \<le> hi")
  case False
  then have "denied (deadline jti - 1) jti b"
    using assms(2-5) by (simp add: safe_def)
  then have "denied (deadline jti - 1) jti (snd (bl_is_revoked B cx jti' b))"
    using False assms by (intro query_keeps) auto
  then show ?thesis by (simp add: safe_def)
qed (simp add: safe_def)


lemma betweenD:
  assumes "ctx_between early late lo hi bx"
  shows "lo \<le> hi" and "lo \<le> bx_clk bx i" and "bx_clk bx i \<le> hi"
    and "lo \<le> early (bx_inner bx i)" and "early (bx_inner bx i) \<le> late (bx_inner bx i)"
    and "late (bx_inner bx i) \<le> hi" and "lo \<le> bx_now bx i" and "bx_now bx i \<le> hi"
  using assms by (simp_all add: ctx_between_def)

lemma flush_inv_later:
  assumes "flush_inv deadline lo f b" and "lo \<le> hi"
    and "\<And>jti. safe deadline lo jti b \<Longrightarrow> safe deadline hi jti b'"
  shows "flush_inv deadline hi f b'"
  using assms by (cases f) (auto simp: flush_inv_def work_ok_def)

lemma accepted_later:
  assumes "accepted_inv deadline lo A b d"
    and "\<And>jti. safe deadline lo jti b \<Longrightarrow> safe deadline hi jti b'"
    and "\<And>x. x \<in> set (outbox d) \<Longrightarrow> out_jti x \<in> out_jti ` set (outbox d') \<or> safe deadline hi (out_jti x) b'"
  shows "accepted_inv deadline hi A b' d'"
  using assms by (fastforce simp: accepted_inv_def)

text \<open>An entry of the pending set can only be dropped once it is safe to.\<close>

lemma local_later:
  assumes "local_inv deadline lo A D"
    and "\<And>jti. safe deadline lo jti (inner D) \<Longrightarrow> safe deadline hi jti (inner D')"
    and "lo \<le> now" and "now \<le> hi"
    and "\<And>jti x. jti \<in> A \<Longrightarrow> map_of (pending D) jti = Some x \<Longrightarrow>
           map_of (pending D') jti = Some x \<or> \<not> entry_live now x \<or> safe deadline hi jti (inner D')"
  shows "local_inv deadline hi A D'"
  unfolding local_inv_def
proof
  fix jti assume A: "jti \<in> A"
  with assms(1) consider "safe deadline lo jti (inner D)"
    | x where "map_of (pending D) jti = Some x" "pending_ok (deadline jti) lo x"
    by (auto simp: local_inv_def)
  then show "safe deadline hi jti (inner D') \<or>
      (\<exists>e. map_of (pending D') jti = Some e \<and> pending_ok (deadline jti) hi e)"
  proof cases
    case 1
    then show ?thesis using assms(2) by blast
  next
    case (2 x)
    have "deadline jti \<le> hi" if "\<not> entry_live now x"
      using that 2(2) assms(3,4) by (auto simp: pending_ok_def entry_live_def duration_since_def)
    moreover have "pending_ok (deadline jti) hi x"
      using 2(2) assms(3,4) by (simp add: pending_ok_def)
    ultimately show ?thesis using assms(5) [OF A 2(1)] by (auto simp: safe_def)
  qed
qed

lemma inv_query:
  assumes inv: "node_inv deadline n" and bx: "ctx_between early late (nd_now n) t bx"
    and q: "durable_is_revoked B bx jti (nd_dur n, nd_db n) = (q, (D, d))"
  shows "node_inv deadline (n\<lparr>nd_now := t, nd_dur := D, nd_db := d\<rparr>)"
proof -
  let ?b = "inner (nd_dur n)" and ?p = "pending (nd_dur n)"
  have i: "ok ?b" "hm_ok ?p" "\<forall>r \<in> set (outbox (nd_db n)). row_ok ttl_ok deadline (nd_now n) r"
    "flush_inv deadline (nd_now n) (nd_flush n) ?b"
    "accepted_inv deadline (nd_now n) (nd_accepted n) ?b (nd_db n)"
    "local_inv deadline (nd_now n) (nd_local n) (nd_dur n)"
    using inv by (simp_all add: node_inv_def)
  have d: "d = nd_db n"
    and b: "inner D = ?b \<or> inner D = snd (bl_is_revoked B (bx_inner bx 0) jti ?b)"
    and p: "pending D = ?p \<or> (pending D = hm_remove jti ?p \<and>
              (\<forall>e. map_of ?p jti = Some e \<longrightarrow> \<not> entry_live (bx_clk bx 0) e))"
    using q by (auto simp: durable_is_revoked_def Let_def split: if_splits prod.splits option.splits)
  have old: "safe deadline (nd_now n) k ?b \<Longrightarrow> safe deadline t k (inner D)" for k
    using b safe_query [of ?b deadline "nd_now n" k "bx_inner bx 0" t jti] i(1) betweenD [OF bx] safe_later
    by metis
  have "ok (inner D)" "hm_ok (pending D)" using b i(1,2) query_ok p hm_ok_ops(1) by auto
  moreover have "flush_inv deadline t (nd_flush n) (inner D)"
    by (rule flush_inv_later [OF i(4) betweenD(1) [OF bx] old])
  moreover have "accepted_inv deadline t (nd_accepted n) (inner D) d"
    using d by (intro accepted_later [OF i(5) old]) auto
  moreover have "local_inv deadline t (nd_local n) D"
    using p by (intro local_later [OF i(6) old betweenD(2,3) [OF bx]]) (auto simp: map_of_hm)
  ultimately show ?thesis
    using i(3) d row_ok_later [OF _ betweenD(1) [OF bx]] by (simp add: node_inv_def)
qed

lemma node_invD:
  assumes "node_inv deadline n"
  shows "ok (inner (nd_dur n))" and "hm_ok (pending (nd_dur n))"
    and "\<forall>r \<in> set (outbox (nd_db n)). row_ok ttl_ok deadline (nd_now n) r"
    and "flush_inv deadline (nd_now n) (nd_flush n) (inner (nd_dur n))"
    and "accepted_inv deadline (nd_now n) (nd_accepted n) (inner (nd_dur n)) (nd_db n)"
    and "local_inv deadline (nd_now n) (nd_local n) (nd_dur n)"
  using assms by (simp_all add: node_inv_def)

text \<open>A call of \<open>durable_revoke\<close>: the inner backend takes it, the journal takes it, or
  nothing does.\<close>

lemma durable_revoke_cases:
  assumes "durable_revoke B bx jti ttl (D0, d0) = (r, (D, d))"
  obtains (direct) "bl_revoke B (bx_inner bx 0) jti ttl (inner D0) = (Inr (), inner D)" "r = Inr ()"
      "pending D = pending D0" "d = d0"
  | (journaled) "snd (bl_revoke B (bx_inner bx 0) jti ttl (inner D0)) = inner D"
      "journal bx jti ttl d0 = (Inr (), d)" "r = Inr ()"
      "pending D = hm_insert jti \<lparr>added_at = bx_clk bx 0, pe_ttl = secs (uint ttl)\<rparr> (pending D0)"
  | (lost) e where "snd (bl_revoke B (bx_inner bx 0) jti ttl (inner D0)) = inner D"
      "journal bx jti ttl d0 = (Inl e, d)" "r \<noteq> Inr ()" "pending D = pending D0"
proof -
  obtain q b where q: "bl_revoke B (bx_inner bx 0) jti ttl (inner D0) = (q, b)" by fastforce
  obtain e d1 where j: "journal bx jti ttl d0 = (e, d1)" by fastforce
  show thesis
  proof (cases q)
    case (Inr u)
    with assms q have "r = Inr ()" "D = D0\<lparr>inner := b\<rparr>" "d = d0"
      by (auto simp: durable_revoke_def)
    with q Inr show thesis by (intro direct) simp_all
  next
    case qe: (Inl u)
    show thesis
    proof (cases e)
      case (Inl x)
      with assms q j qe have "r = Inl ()" "D = D0\<lparr>inner := b\<rparr>" "d = d1"
        by (auto simp: durable_revoke_def)
      with q j Inl show thesis by (intro lost) simp_all
    next
      case (Inr x)
      with assms q j qe have "r = Inr ()" "d = d1"
        "D = D0\<lparr>inner := b, pending := hm_insert jti
               \<lparr>added_at = bx_clk bx 0, pe_ttl = secs (uint ttl)\<rparr> (pending D0)\<rparr>"
        by (auto simp: durable_revoke_def)
      with q j Inr show thesis by (intro journaled) simp_all
    qed
  qed
qed

lemma inv_revoke:
  assumes inv: "node_inv deadline n" and bx: "ctx_between early late (nd_now n) t bx"
    and ttl: "ttl_covers ttl_ok (deadline jti) (nd_now n) ttl"
    and r: "durable_revoke B bx jti ttl (nd_dur n, nd_db n) = (r, (D, d))"
  shows "node_inv deadline
       (n\<lparr>nd_now := t, nd_dur := D, nd_db := d,
          nd_accepted := (if r = Inr () then insert jti (nd_accepted n) else nd_accepted n),
          nd_local := (if r = Inr () then insert jti (nd_local n) else nd_local n)\<rparr>)"
proof -
  let ?b = "inner (nd_dur n)"
  note i = node_invD [OF inv]
  note le = betweenD(1) [OF bx]
  have b: "inner D = snd (bl_revoke B (bx_inner bx 0) jti ttl ?b)"
    using r by (cases rule: durable_revoke_cases) simp_all
  have ok: "ok (inner D)" using revoke_ok [OF i(1)] b by simp
  have old: "safe deadline (nd_now n) k ?b \<Longrightarrow> safe deadline t k (inner D)" for k
    using safe_revoke [of ?b deadline "nd_now n" k "bx_inner bx 0" t ttl jti] i(1) betweenD [OF bx] ttl b
    by (auto simp: ttl_covers_def)
  have new: "safe deadline t jti (inner D)" if "fst (bl_revoke B (bx_inner bx 0) jti ttl ?b) = Inr ()"
    using safe_revoked [of ?b "bx_inner bx 0" jti ttl "nd_now n" t] i(1) betweenD [OF bx] ttl b that
    by (auto simp: ttl_covers_def)
  have pend: "pending_ok (deadline jti) t \<lparr>added_at = bx_clk bx 0, pe_ttl = secs (uint ttl)\<rparr>"
    using betweenD(2,3) [OF bx, of 0] ttl by (simp add: pending_ok_def ttl_covers_def)
  have flush: "flush_inv deadline t (nd_flush n) (inner D)" by (rule flush_inv_later [OF i(4) le old])
  have keep: "local_inv deadline t (nd_local n) D" if "pending D = pending (nd_dur n)"
    using that by (intro local_later [OF i(6) old betweenD(2,3) [OF bx]]) auto
  have jacc: "accepted_inv deadline t (nd_accepted n) (inner D) d" if "journal bx jti ttl (nd_db n) = (q, d)" for q
    using journal_effect(1) [OF that] by (intro accepted_later [OF i(5) old]) auto
  have jrows: "\<forall>x \<in> set (outbox d). row_ok ttl_ok deadline t x" if "journal bx jti ttl (nd_db n) = (q, d)" for q
    using journal_rows [OF that, of ttl_ok deadline "nd_now n" t] ttl betweenD [OF bx] i(3) by simp
  from r show ?thesis
  proof (cases rule: durable_revoke_cases)
    case direct
    then have "accepted_inv deadline t (insert jti (nd_accepted n)) (inner D) d"
      "local_inv deadline t (insert jti (nd_local n)) D"
      using accepted_later [OF i(5) old, of d] keep new by (auto simp: accepted_inv_def local_inv_def)
    then show ?thesis
      using direct ok i(2,3) flush row_ok_later [OF _ le] by (simp add: node_inv_def)
  next
    case journaled
    have "local_inv deadline t (nd_local n - {jti}) D"
      using journaled(4) i(6)
      by (intro local_later [OF _ old betweenD(2,3) [OF bx], of "nd_local n - {jti}"])
         (auto simp: local_inv_def map_of_hm) 
    then have "local_inv deadline t (insert jti (nd_local n)) D"
      using journaled(4) pend by (auto simp: local_inv_def map_of_hm)
    moreover have "accepted_inv deadline t (insert jti (nd_accepted n)) (inner D) d"
      using jacc [OF journaled(2)] journal_effect(2) [OF journaled(2)] by (auto simp: accepted_inv_def)
    ultimately show ?thesis
      using journaled ok i(2) flush jrows [OF journaled(2)] hm_ok_ops(5) by (auto simp: node_inv_def)
  next
    case (lost e)
    then show ?thesis
      using ok i(2) flush jrows [OF lost(2)] jacc [OF lost(2)] keep by (auto simp: node_inv_def)
  qed
qed

lemma inv_flush_begin:
  assumes inv: "node_inv deadline n" and bx: "ctx_between early late (nd_now n) t bx"
    and f: "flush_batch bx (nd_db n) = (res, d)"
  shows "node_inv deadline (n\<lparr>nd_now := t, nd_db := d,
           nd_flush := (case res of Inl _ \<Rightarrow> Idle | Inr rs \<Rightarrow> Flushing rs [])\<rparr>)"
proof -
  let ?b = "inner (nd_dur n)"
  note i = node_invD [OF inv] and e = flush_batch_effect [OF f]
  note le = betweenD(1) [OF bx]
  have old: "safe deadline (nd_now n) k ?b \<Longrightarrow> safe deadline t k ?b" for k
    using safe_later le by blast
  have rows: "\<forall>x \<in> set (outbox d). row_ok ttl_ok deadline t x"
    using e(1) i(3) row_ok_later [OF _ le] by blast
  have expired: "safe deadline t (out_jti x) ?b" if "x \<in> set (outbox (nd_db n))" "x \<notin> set (outbox d)" for x
    using e(2) [OF that] i(3) that(1) betweenD(8) [OF bx, of 0] by (fastforce simp: row_ok_def safe_def)
  have "accepted_inv deadline t (nd_accepted n) ?b d"
    using expired by (intro accepted_later [OF i(5) old]) (metis imageI)+
  moreover have "local_inv deadline t (nd_local n) (nd_dur n)"
    by (intro local_later [OF i(6) old betweenD(2,3) [OF bx]]) auto
  moreover have "work_ok ttl_ok deadline t y" if "res = Inr rs" "y \<in> set rs" for rs y
    using e(3) [OF that] rows by (fastforce simp: work_ok_def row_ok_def)
  ultimately show ?thesis
    using i(1,2) rows by (cases res) (auto simp: node_inv_def flush_inv_def)
qed

lemma inv_flush_row:
  assumes inv: "node_inv deadline n" and bx: "ctx_between early late (nd_now n) t bx"
    and f: "nd_flush n = Flushing ((jti, ttl) # rows) flushed"
    and r: "bl_revoke B (bx_inner bx 0) jti (word_of_int ttl) (inner (nd_dur n)) = (r, b)"
  shows "node_inv deadline (n\<lparr>nd_now := t, nd_dur := (nd_dur n)\<lparr>inner := b\<rparr>,
           nd_flush := Flushing rows (if r = Inr () then flushed @ [jti] else flushed)\<rparr>)"
proof -
  let ?b = "inner (nd_dur n)" and ?w = "word_of_int ttl :: u64"
  note i = node_invD [OF inv]
  note le = betweenD(1) [OF bx]
  have "work_ok ttl_ok deadline (nd_now n) (jti, ttl)"
    using i(4) f by (simp add: flush_inv_def)
  then have w: "deadline jti \<le> nd_now n + secs ttl" "0 \<le> ttl" "ttl < 2 ^ 63" "ttl_ok ?w"
    unfolding work_ok_def prod.case by blast+
  have u: "uint ?w = ttl" by (rule uint_of_i64 [OF w(2,3)])
  have b: "b = snd (bl_revoke B (bx_inner bx 0) jti ?w ?b)" using r by simp
  have old: "safe deadline (nd_now n) k ?b \<Longrightarrow> safe deadline t k b" for k
    unfolding b using betweenD [OF bx] w(1) u
    by (intro safe_revoke [OF i(1) _ _ _ _ w(4), where deadline = deadline and lo = "nd_now n"]) auto
  have new: "safe deadline t jti b" if "r = Inr ()"
    unfolding b using betweenD [OF bx] w(1) u that r
    by (intro safe_revoked [OF i(1) _ _ _ w(4), where lo = "nd_now n"]) auto
  have "flush_inv deadline t (Flushing rows flushed) b"
    using flush_inv_later [OF i(4) le old] f by (simp add: flush_inv_def)
  then have "flush_inv deadline t (Flushing rows (if r = Inr () then flushed @ [jti] else flushed)) b"
    using new by (simp add: flush_inv_def)
  moreover have "accepted_inv deadline t (nd_accepted n) b (nd_db n)"
    by (intro accepted_later [OF i(5) old]) auto
  moreover have "local_inv deadline t (nd_local n) ((nd_dur n)\<lparr>inner := b\<rparr>)"
    using old by (intro local_later [OF i(6) _ betweenD(2,3) [OF bx]]) auto
  ultimately show ?thesis
    using i(2,3) revoke_ok [OF i(1)] b row_ok_later [OF _ le] by (simp add: node_inv_def)
qed

lemma inv_flush_end:
  assumes inv: "node_inv deadline n" and bx: "ctx_between early late (nd_now n) t bx"
    and f: "nd_flush n = Flushing [] flushed"
    and e: "flush_done bx flushed (nd_dur n, nd_db n) = (e, (D, d))"
  shows "node_inv deadline (n\<lparr>nd_now := t, nd_dur := D, nd_db := d, nd_flush := Idle\<rparr>)"
proof -
  let ?b = "inner (nd_dur n)" and ?p = "pending (nd_dur n)"
  note i = node_invD [OF inv] and fd = flush_done_effect [OF e]
  note le = betweenD(1) [OF bx]
  have old: "safe deadline (nd_now n) k ?b \<Longrightarrow> safe deadline t k (inner D)" for k
    using safe_later le fd(1) by metis
  have fin: "safe deadline t k (inner D)" if "k \<in> set flushed" for k
    using i(4) f that old by (simp add: flush_inv_def)
  have "accepted_inv deadline t (nd_accepted n) (inner D) d"
    using fd(3) fin by (intro accepted_later [OF i(5) old]) (metis imageI)+
  moreover have "local_inv deadline t (nd_local n) D"
    using fd(4) fin i(2)
    by (intro local_later [OF i(6) old betweenD(2,3) [OF bx, of 0]]) (auto simp: map_of_hm)
  moreover have "hm_ok (pending D)" using fd(4) i(2) hm_ok_ops(2) by metis
  ultimately show ?thesis
    using i(1,3) fd(1,2) row_ok_later [OF _ le] by (auto simp: node_inv_def flush_inv_def)
qed

lemma inv_restart:
  assumes inv: "node_inv deadline n" and le: "nd_now n \<le> t"
  shows "node_inv deadline (n\<lparr>nd_now := t, nd_dur := durable_new (inner (nd_dur n)),
           nd_flush := Idle, nd_local := {}\<rparr>)"
proof -
  note i = node_invD [OF inv]
  have "accepted_inv deadline t (nd_accepted n) (inner (nd_dur n)) (nd_db n)"
    using safe_later le by (intro accepted_later [OF i(5)]) auto
  then show ?thesis
    using i(1,3) row_ok_later [OF _ le]
    by (simp add: node_inv_def durable_new_def hm_ok_def flush_inv_def local_inv_def)
qed

lemma inv_step:
  assumes "durable_step B ttl_ok early late deadline n n'" and "node_inv deadline n"
  shows "node_inv deadline n'"
  using assms
proof cases
  case (revoke t bx jti ttl r D d)
  then show ?thesis using inv_revoke [OF assms(2)] by blast
next
  case (query t bx jti q D d)
  then show ?thesis using inv_query [OF assms(2)] by blast
next
  case (flush_begin t bx rows d)
  then show ?thesis using inv_flush_begin [OF assms(2)] by blast
next
  case (flush_row t bx jti ttl rows flushed r b)
  then show ?thesis using inv_flush_row [OF assms(2)] by blast
next
  case (flush_end t bx flushed e D d)
  then show ?thesis using inv_flush_end [OF assms(2)] by blast
next
  case (restart t)
  then show ?thesis using inv_restart [OF assms(2)] by blast
qed

lemma inv_reachable:
  assumes "durable_reachable B ttl_ok early late deadline b0 n" and "ok b0"
  shows "node_inv deadline n"
  using assms
proof induction
  case (start d t)
  then show ?case
    by (simp add: node_inv_def durable_new_def hm_ok_def flush_inv_def accepted_inv_def local_inv_def)
next
  case (step n n')
  then show ?case using inv_step by blast
qed

text \<open>An acknowledged revocation is in the inner backend or in the journal.\<close>

lemma accepted_not_lost:
  assumes "durable_reachable B ttl_ok early late deadline b0 n" and "ok b0"
    and "jti \<in> nd_accepted n" and "nd_now n < deadline jti"
  shows "denied (deadline jti - 1) jti (inner (nd_dur n)) \<or>
         jti \<in> out_jti ` set (outbox (nd_db n))"
  using node_invD(5) [OF inv_reachable [OF assms(1,2)]] assms(3,4)
  by (auto simp: accepted_inv_def safe_def)

text \<open>The instance that acknowledged it rejects the token, or its backend reports an error.\<close>

lemma local_rejected:
  assumes "durable_reachable B ttl_ok early late deadline b0 n" and "ok b0"
    and "jti \<in> nd_local n" and bx: "ctx_between early late (nd_now n) t bx" and "t < deadline jti"
  shows "fst (durable_is_revoked B bx jti (nd_dur n, nd_db n)) \<in> {Inr True, Inl ()}"
proof -
  note i = node_invD [OF inv_reachable [OF assms(1,2)]]
  consider "denied (deadline jti - 1) jti (inner (nd_dur n))"
    | x where "map_of (pending (nd_dur n)) jti = Some x" "pending_ok (deadline jti) (nd_now n) x"
    using i(6) assms(3,5) betweenD(1) [OF bx] by (auto simp: local_inv_def safe_def)
  then show ?thesis
  proof cases
    case 1
    have "denied (late (bx_inner bx 0)) jti (inner (nd_dur n))"
      using denied_earlier [OF 1] betweenD(6) [OF bx, of 0] assms(5) by simp
    then have "fst (bl_is_revoked B (bx_inner bx 0) jti (inner (nd_dur n))) \<in> {Inr True, Inl ()}"
      using query_true i(1) betweenD(5) [OF bx] by blast
    then show ?thesis by (auto simp: durable_is_revoked_def Let_def split: prod.splits)
  next
    case (2 x)
    then have "entry_live (bx_clk bx 0) x"
      using betweenD(2,3) [OF bx, of 0] assms(5)
      by (auto simp: pending_ok_def entry_live_def duration_since_def)
    with 2(1) show ?thesis by (simp add: durable_is_revoked_def Let_def)
  qed
qed

text \<open>A sweep over the rows: it works them off or counts them, and every token that was
  revoked before or went through is denied afterwards.\<close>

lemma flush_rows_denies:
  assumes "ok b" and "\<forall>x \<in> set rows. work_ok ttl_ok deadline lo x"
    and "\<And>i. lo \<le> early (cxs i) \<and> early (cxs i) \<le> late (cxs i) \<and> late (cxs i) \<le> hi"
    and "flush_rows B cxs i rows b = (fl, rem, b')"
  shows "length fl + rem = length rows \<and> set fl \<subseteq> fst ` set rows \<and>
         (\<forall>k. hi < deadline k \<longrightarrow> k \<in> set fl \<or> denied (deadline k - 1) k b \<longrightarrow>
              denied (deadline k - 1) k b')"
  using assms
proof (induction rows arbitrary: b i fl rem)
  case Nil
  then show ?case by simp
next
  case (Cons x rows)
  obtain jti ttl where x: "x = (jti, ttl)" by fastforce
  let ?w = "word_of_int ttl :: u64"
  obtain r b1 where r: "bl_revoke B (cxs i) jti ?w b = (r, b1)" by fastforce
  obtain fl1 rem1 where f: "flush_rows B cxs (Suc i) rows b1 = (fl1, rem1, b')"
    and fl: "fl = (if r = Inr () then jti # fl1 else fl1)" "rem = (if r = Inr () then rem1 else Suc rem1)"
    using Cons.prems(4) x r by (cases r) (auto split: prod.splits)
  have "work_ok ttl_ok deadline lo (jti, ttl)" using Cons.prems(2) x by simp
  then have w: "deadline jti \<le> lo + secs ttl" "0 \<le> ttl" "ttl < 2 ^ 63" "ttl_ok ?w"
    unfolding work_ok_def prod.case by blast+
  have u: "uint ?w = ttl" by (rule uint_of_i64 [OF w(2,3)])
  have ok1: "ok b1" using revoke_ok [OF Cons.prems(1), of "cxs i" jti ?w] r by simp
  have old: "denied (deadline k - 1) k b1" if "denied (deadline k - 1) k b" "hi < deadline k" for k
  proof -
    have "jti \<noteq> k \<or> deadline k - 1 < early (cxs i) + secs (uint ?w)"
      using w(1) u Cons.prems(3) [of i] by (cases "jti = k") auto
    moreover have "late (cxs i) \<le> deadline k - 1" using Cons.prems(3) [of i] that(2) by simp
    ultimately show ?thesis
      using revoke_keeps [OF Cons.prems(1) that(1) _ w(4), of "cxs i" jti] r by simp
  qed
  have new: "denied (deadline jti - 1) jti b1" if "r = Inr ()" "hi < deadline jti"
    using revoke_denies [OF Cons.prems(1), of "cxs i" jti ?w "deadline jti - 1"]
      Cons.prems(3) [of i] that w u r by auto
  have rest: "\<forall>x \<in> set rows. work_ok ttl_ok deadline lo x" using Cons.prems(2) by simp
  have "length fl1 + rem1 = length rows \<and> set fl1 \<subseteq> fst ` set rows \<and>
      (\<forall>k. hi < deadline k \<longrightarrow> k \<in> set fl1 \<or> denied (deadline k - 1) k b1 \<longrightarrow>
           denied (deadline k - 1) k b')"
    using Cons.IH [OF ok1 rest Cons.prems(3) f] .
  then show ?case using fl x old new by (auto split: if_splits)
qed

end


section \<open>The service with Redis\<close>

text \<open>
  C1. An acknowledged revocation is never lost.  Whatever fails on the way (Redis, the
  database, a reply after its statement was executed), however the sweeps of the flush
  worker interleave with logouts and lookups, and however often the instance restarts:
  as long as the token has not expired, Redis holds the revocation up to the token's
  expiry or the journal table holds it.
\<close>

theorem acknowledged_revocation_never_lost:
  assumes "redis_contract R V" and "inj show_uuid"
    and "durable_reachable (redis_backend R show_uuid) (\<lambda>ttl. ttl < 2 ^ 31) cx_srv cx_srv deadline b0 n"
    and "jti \<in> nd_accepted n" and "nd_now n < deadline jti"
  shows "rb_denied V show_uuid (deadline jti - 1) jti (inner (nd_dur n)) \<or>
         jti \<in> out_jti ` set (outbox (nd_db n))"
  by (rule revocation_backend.accepted_not_lost [OF redis_bl [OF assms(1,2)] assms(3) TrueI assms(4,5)])

text \<open>A logout while Redis is down: the revocation is journaled.\<close>

definition down_ctx :: bl_ctx where
  "down_ctx = \<lparr>bx_clk = (\<lambda>_. 5), bx_inner = (\<lambda>_. \<lparr>cx_clk = (\<lambda>_. 5), cx_srv = 5, cx_link = Failed False\<rparr>),
              bx_pg = (\<lambda>_. Pg_Up), bx_now = (\<lambda>_. 5)\<rparr>"

definition node_start :: "(u64 \<times> redis_store) node" where
  "node_start = \<lparr>nd_now = 0, nd_dur = durable_new (0, \<lambda>_. None), nd_db = empty_db, nd_flush = Idle,
                nd_accepted = {}, nd_local = {}\<rparr>"

definition node_logged_out :: "(u64 \<times> redis_store) node" where
  "node_logged_out =
     node_start\<lparr>nd_now := 5,
       nd_dur := \<lparr>inner = (1, \<lambda>_. None), pending = [(7, \<lparr>added_at = 5, pe_ttl = secs 60\<rparr>)]\<rparr>,
       nd_db := empty_db\<lparr>outbox := [\<lparr>out_jti = 7, out_ttl_secs = 60, out_created_at = 5,
                                    out_expires_at = 5 + secs 60\<rparr>]\<rparr>,
       nd_accepted := {7}, nd_local := {7}\<rparr>"

lemma show_unat_inj: "inj (\<lambda>u :: uuid. show_nat (unat u))"
  by (auto simp: inj_def show_nat_inj intro: word_unat_eq_iff [THEN iffD2])

lemma node_logged_out_reachable:
  "durable_reachable (redis_backend store_server (\<lambda>u. show_nat (unat u))) (\<lambda>ttl. ttl < 2 ^ 31)
     cx_srv cx_srv (\<lambda>_. 100) (0, \<lambda>_. None) node_logged_out"
proof -
  let ?B = "redis_backend store_server (\<lambda>u. show_nat (unat u))"
  have s: "durable_reachable ?B (\<lambda>ttl. ttl < 2 ^ 31) cx_srv cx_srv (\<lambda>_. 100) (0, \<lambda>_. None) node_start"
    unfolding node_start_def by (rule durable_reachable.start) (simp add: empty_db_def)
  have bx: "ctx_between cx_srv cx_srv (nd_now node_start) 5 down_ctx"
    by (simp add: ctx_between_def down_ctx_def node_start_def)
  have c: "ttl_covers (\<lambda>ttl. ttl < 2 ^ 31) 100 (nd_now node_start) 60"
    by (simp add: ttl_covers_def node_start_def secs_def)
  have r: "durable_revoke ?B down_ctx 7 60 (nd_dur node_start, nd_db node_start) =
      (Inr (), (nd_dur node_logged_out, nd_db node_logged_out))"
    by (simp add: durable_revoke_def redis_backend_def rb_revoke_def down_ctx_def node_start_def
          node_logged_out_def journal_def insert_outbox_def empty_db_def secs_def pg_end_timestamp_def
          durable_new_def hm_insert_def hm_or_insert_def hm_modify_def hm_contains_def)
  have "node_logged_out = node_start\<lparr>nd_now := 5, nd_dur := nd_dur node_logged_out,
      nd_db := nd_db node_logged_out, nd_accepted := insert 7 (nd_accepted node_start),
      nd_local := insert 7 (nd_local node_start)\<rparr>"
    by (simp add: node_logged_out_def node_start_def)
  then show ?thesis
    using durable_reachable.step [OF s durable_step.revoke [OF bx c r]] by simp
qed

theorem acknowledged_revocation_never_lost_witness:
  "rb_denied store_view (\<lambda>u. show_nat (unat u)) 99 7 (inner (nd_dur node_logged_out)) \<or>
   7 \<in> out_jti ` set (outbox (nd_db node_logged_out))"
  using acknowledged_revocation_never_lost
          [OF store_contract show_unat_inj node_logged_out_reachable, of 7]
  by (simp add: node_logged_out_def)



lemma rb_revoke_up:
  assumes "redis_contract R V" and "cx_link cx = Up" and "ttl < 2 ^ 31"
  shows "fst (rb_revoke R show_uuid cx jti ttl b) = Inr ()"
proof (cases "ttl = 0")
  case False
  obtain n r where b: "b = (n, r)" by fastforce
  have "fst (SET_EX R (cx_srv cx) (rb_key show_uuid jti) ''1'' ttl r) = Some ()"
    using assms(1,3) False unfolding redis_contract_def set_ex_law_def by (simp add: word_gt_0)
  then show ?thesis
    using assms(2) False b by (auto simp: rb_revoke_def split: prod.splits option.splits)
qed (simp add: rb_revoke_def)

lemma flush_rows_up:
  assumes "redis_contract R V" and "\<And>i. cx_link (cxs i) = Up"
    and "\<forall>x \<in> set rows. word_of_int (snd x) < (2 ^ 31 :: u64)"
  shows "\<exists>b'. flush_rows (redis_backend R show_uuid) cxs i rows b = (map fst rows, 0, b')"
  using assms(3)
proof (induction rows arbitrary: i b)
  case Nil
  then show ?case by simp
next
  case (Cons x rows)
  obtain jti ttl where x: "x = (jti, ttl)" by fastforce
  obtain b1 where "rb_revoke R show_uuid (cxs i) jti (word_of_int ttl) b = (Inr (), b1)"
    using rb_revoke_up [OF assms(1,2), of "word_of_int ttl" show_uuid i jti b] Cons.prems x
    by (metis list.set_intros(1) prod.collapse snd_conv)
  then show ?case
    using Cons.IH [of "Suc i" b1] Cons.prems x by (auto simp: redis_backend_def)
qed

text \<open>The rows a sweep retries, and the table it leaves when everything is reachable.\<close>

definition sweep_rows :: "bl_ctx \<Rightarrow> database \<Rightarrow> (uuid \<times> int) list" where
  "sweep_rows bx d = map (\<lambda>r. (out_jti r, out_ttl_secs r)) (take FLUSH_BATCH_SIZE
     (sort_key out_created_at (filter (\<lambda>r. \<not> out_expires_at r \<le> bx_now bx 0) (outbox d))))"

definition sweep_rest :: "bl_ctx \<Rightarrow> database \<Rightarrow> outbox_row list" where
  "sweep_rest bx d = filter (\<lambda>r. out_jti r \<notin> fst ` set (sweep_rows bx d))
     (filter (\<lambda>r. \<not> out_expires_at r \<le> bx_now bx 0) (outbox d))"

lemma sweep_rows_in:
  "x \<in> set (sweep_rows bx d) \<Longrightarrow> \<exists>r \<in> set (outbox d). x = (out_jti r, out_ttl_secs r)"
  by (auto simp: sweep_rows_def dest!: in_set_takeD)

lemma flush_pending_up:
  assumes "redis_contract R V" and "\<forall>r \<in> set (outbox d). out_ttl_secs r \<in> {0..<2 ^ 31}"
    and "\<forall>i. cx_link (bx_inner bx i) = Up" and "\<forall>i. bx_pg bx i = Pg_Up"
  shows "\<exists>D'. flush_rows (redis_backend R show_uuid) (bx_inner bx) 0 (sweep_rows bx d) (inner D) =
             (map fst (sweep_rows bx d), 0, inner D') \<and>
           flush_pending (redis_backend R show_uuid) bx (D, d) = (Inr 0, (D', d\<lparr>outbox := sweep_rest bx d\<rparr>))"
proof -
  let ?B = "redis_backend R show_uuid" and ?ob = "filter (\<lambda>r. \<not> out_expires_at r \<le> bx_now bx 0) (outbox d)"
  have batch: "flush_batch bx d = (Inr (sweep_rows bx d), d\<lparr>outbox := ?ob\<rparr>)"
    using assms(4) by (simp add: flush_batch_def delete_outbox_expired_def select_outbox_batch_def sweep_rows_def)
  have "word_of_int (snd x) < (2 ^ 31 :: u64)" if "x \<in> set (sweep_rows bx d)" for x
    using sweep_rows_in [OF that] assms(2) by (auto simp: word_less_alt uint_word_of_int)
  then obtain b where rows: "flush_rows ?B (bx_inner bx) 0 (sweep_rows bx d) (inner D) = (map fst (sweep_rows bx d), 0, b)"
    using flush_rows_up [OF assms(1)] assms(3) by blast
  have "\<exists>D'. inner D' = b \<and> flush_done bx (map fst (sweep_rows bx d)) (D\<lparr>inner := b\<rparr>, d\<lparr>outbox := ?ob\<rparr>) =
      (Inr (), (D', d\<lparr>outbox := sweep_rest bx d\<rparr>))"
    using assms(4) by (cases "sweep_rows bx d = []") (simp_all add: flush_done_def delete_outbox_any_def sweep_rest_def)
  then obtain D' where b: "inner D' = b" and fin: "flush_done bx (map fst (sweep_rows bx d)) (D\<lparr>inner := b\<rparr>, d\<lparr>outbox := ?ob\<rparr>) =
      (Inr (), (D', d\<lparr>outbox := sweep_rest bx d\<rparr>))" by (elim exE conjE)
  have "flush_pending ?B bx (D, d) = (Inr 0, (D', d\<lparr>outbox := sweep_rest bx d\<rparr>))"
    unfolding flush_pending_def prod.case batch sum.case rows using fin by simp
  with rows b show ?thesis by blast
qed

lemma length_filter_sort: "length (filter P (sort_key f xs)) = length (filter P xs)"
  using filter_sort [of P f xs] by simp

lemma sweep_rest_length: "length (sweep_rest bx d) \<le> length (outbox d) - FLUSH_BATCH_SIZE"
proof -
  let ?P = "\<lambda>r. out_jti r \<notin> fst ` set (sweep_rows bx d)"
  let ?ob = "filter (\<lambda>r. \<not> out_expires_at r \<le> bx_now bx 0) (outbox d)"
  let ?so = "sort_key out_created_at ?ob"
  have "filter ?P (take FLUSH_BATCH_SIZE ?so) = []" by (auto simp: filter_empty_conv sweep_rows_def image_image)
  then have "filter ?P ?so = filter ?P (drop FLUSH_BATCH_SIZE ?so)"
    using filter_append [of ?P "take FLUSH_BATCH_SIZE ?so" "drop FLUSH_BATCH_SIZE ?so"] by (simp only: append_take_drop_id append_Nil)
  then have "length (sweep_rest bx d) = length (filter ?P (drop FLUSH_BATCH_SIZE ?so))"
    using length_filter_sort [of ?P out_created_at ?ob] by (simp only: sweep_rest_def)
  also have "\<dots> \<le> length ?ob - FLUSH_BATCH_SIZE"
    using length_filter_le [of ?P "drop FLUSH_BATCH_SIZE ?so"] by simp
  also have "\<dots> \<le> length (outbox d) - FLUSH_BATCH_SIZE" by (intro diff_le_mono length_filter_le)
  finally show ?thesis .
qed

lemma sweep_rest_subset: "set (sweep_rest bx d) \<subseteq> set (outbox d)"
  by (auto simp: sweep_rest_def)

text \<open>
  The flush worker: a sweep at every tick of its interval; the gauge of the backlog takes
  what the sweep returns and keeps its value when the sweep fails.
\<close>

definition flusher_tick ::
  "'b blacklist \<Rightarrow> bl_ctx \<Rightarrow> nat \<times> 'b durable \<times> database \<Rightarrow> nat \<times> 'b durable \<times> database" where
  "flusher_tick B bx = (\<lambda>(gauge, s).
     case flush_pending B bx s of
       (Inr remaining, s1) \<Rightarrow> (remaining, s1)
     | (Inl _, s1) \<Rightarrow> (gauge, s1))"

fun flusher :: "'b blacklist \<Rightarrow> bl_ctx list \<Rightarrow> nat \<times> 'b durable \<times> database \<Rightarrow> nat \<times> 'b durable \<times> database" where
  "flusher B [] st = st"
| "flusher B (bx # ticks) st = flusher B ticks (flusher_tick B bx st)"

lemma flusher_tick_up:
  assumes "redis_contract R V" and "\<forall>r \<in> set (outbox d). out_ttl_secs r \<in> {0..<2 ^ 31}"
    and "\<forall>i. cx_link (bx_inner bx i) = Up" and "\<forall>i. bx_pg bx i = Pg_Up"
  shows "\<exists>D'. flusher_tick (redis_backend R show_uuid) bx (g, D, d) = (0, D', d\<lparr>outbox := sweep_rest bx d\<rparr>)"
  using flush_pending_up [OF assms, of show_uuid D] by (auto simp: flusher_tick_def)

lemma row_ok_ttl:
  assumes "row_ok (\<lambda>ttl. ttl < 2 ^ 31) deadline now r"
  shows "out_ttl_secs r \<in> {0..<2 ^ 31}"
  using assms uint_of_i64 [of "out_ttl_secs r"] by (auto simp: row_ok_def word_less_alt)

lemma sweep_rows_ok:
  assumes "\<forall>r \<in> set (outbox d). row_ok ttl_ok deadline now r"
  shows "\<forall>x \<in> set (sweep_rows bx d). work_ok ttl_ok deadline now x"
proof
  fix x assume "x \<in> set (sweep_rows bx d)"
  then obtain r where "r \<in> set (outbox d)" "x = (out_jti r, out_ttl_secs r)" using sweep_rows_in by blast
  with assms show "work_ok ttl_ok deadline now x" by (fastforce simp: work_ok_def row_ok_def)
qed

lemma small_backlog_swept:
  assumes "length (outbox d) \<le> FLUSH_BATCH_SIZE"
  shows "sweep_rest bx d = []" and "r \<in> set (outbox d) \<Longrightarrow> bx_now bx 0 < out_expires_at r \<Longrightarrow> out_jti r \<in> fst ` set (sweep_rows bx d)"
proof -
  show "sweep_rest bx d = []" using sweep_rest_length [of bx d] assms by simp
  then show "out_jti r \<in> fst ` set (sweep_rows bx d)" if "r \<in> set (outbox d)" "bx_now bx 0 < out_expires_at r"
    using that by (auto simp: sweep_rest_def filter_empty_conv)
qed

text \<open>
  C23. Once Redis and the database are reachable again, one sweep drains a backlog that
  fits into a batch: \<open>flush_pending\<close> reports nothing left, the journal table is empty, and
  every token that was in it is denied by Redis up to its expiry.
\<close>

theorem flush_drains_backlog:
  assumes "redis_contract R V" and "inj show_uuid"
    and "\<forall>r \<in> set (outbox d). row_ok (\<lambda>ttl. ttl < 2 ^ 31) deadline lo r"
    and "length (outbox d) \<le> FLUSH_BATCH_SIZE"
    and "ctx_between cx_srv cx_srv lo hi bx"
    and "\<forall>i. cx_link (bx_inner bx i) = Up" and "\<forall>i. bx_pg bx i = Pg_Up"
  shows "\<exists>D' d'. flush_pending (redis_backend R show_uuid) bx (D, d) = (Inr 0, (D', d')) \<and>
           outbox d' = [] \<and>
           (\<forall>r \<in> set (outbox d). hi < deadline (out_jti r) \<longrightarrow>
              rb_denied V show_uuid (deadline (out_jti r) - 1) (out_jti r) (inner D'))"
proof -
  have now: "bx_now bx 0 \<le> hi"
    and srv: "\<And>i. lo \<le> cx_srv (bx_inner bx i) \<and> cx_srv (bx_inner bx i) \<le> cx_srv (bx_inner bx i) \<and> cx_srv (bx_inner bx i) \<le> hi"
    using assms(5) by (simp_all add: ctx_between_def)
  have "\<forall>r \<in> set (outbox d). out_ttl_secs r \<in> {0..<2 ^ 31}" using assms(3) row_ok_ttl by blast
  from flush_pending_up [OF assms(1) this assms(6,7), of show_uuid D]
  obtain D' where rows: "flush_rows (redis_backend R show_uuid) (bx_inner bx) 0 (sweep_rows bx d) (inner D) =
        (map fst (sweep_rows bx d), 0, inner D')"
      and swept: "flush_pending (redis_backend R show_uuid) bx (D, d) = (Inr 0, (D', d\<lparr>outbox := []\<rparr>))"
    using small_backlog_swept(1) [OF assms(4), of bx] by (elim exE conjE) simp
  have "rb_denied V show_uuid (deadline (out_jti r) - 1) (out_jti r) (inner D')"
    if r: "r \<in> set (outbox d)" "hi < deadline (out_jti r)" for r
  proof -
    have "bx_now bx 0 < out_expires_at r" using assms(3) r now by (fastforce simp: row_ok_def)
    then have "out_jti r \<in> fst ` set (sweep_rows bx d)" by (rule small_backlog_swept(2) [OF assms(4) r(1)])
    with revocation_backend.flush_rows_denies
           [OF redis_bl [OF assms(1,2)] TrueI sweep_rows_ok [OF assms(3)] srv rows] r(2)
    show ?thesis by (auto simp: image_image)
  qed
  with swept show ?thesis by auto
qed

text \<open>
  C24. The flush worker gets through any backlog: with Redis and the database reachable,
  as many sweeps as the backlog has batches leave the journal table empty.
\<close>

theorem flusher_finishes:
  assumes "redis_contract R V" and "\<forall>r \<in> set (outbox d). out_ttl_secs r \<in> {0..<2 ^ 31}"
    and "\<forall>bx \<in> set ticks. \<forall>i. cx_link (bx_inner bx i) = Up \<and> bx_pg bx i = Pg_Up"
    and "length (outbox d) \<le> length ticks * FLUSH_BATCH_SIZE"
  shows "\<exists>gauge D' d'. flusher (redis_backend R show_uuid) ticks (g, D, d) = (gauge, D', d') \<and> outbox d' = []"
  using assms(2-4)
proof (induction ticks arbitrary: g D d)
  case (Cons bx ticks)
  obtain D' where tick: "flusher_tick (redis_backend R show_uuid) bx (g, D, d) = (0, D', d\<lparr>outbox := sweep_rest bx d\<rparr>)"
    using flusher_tick_up [OF assms(1) Cons.prems(1), of bx show_uuid g D] Cons.prems(2) by auto
  have "length (sweep_rest bx d) \<le> length ticks * FLUSH_BATCH_SIZE"
    using sweep_rest_length [of bx d] Cons.prems(3) by simp
  moreover have "\<forall>r \<in> set (sweep_rest bx d). out_ttl_secs r \<in> {0..<2 ^ 31}"
    using Cons.prems(1) sweep_rest_subset [of bx d] by blast
  ultimately show ?case
    using Cons.IH [of "d\<lparr>outbox := sweep_rest bx d\<rparr>" 0 D'] Cons.prems(2) by (simp add: tick)
qed simp

text \<open>
  The gauge counts the failures of one batch, not the backlog: after a successful sweep it
  is zero, however many rows are left for the next one.
\<close>

lemma gauge_hides_backlog:
  assumes "redis_contract R V" and "\<forall>r \<in> set (outbox d). out_ttl_secs r \<in> {0..<2 ^ 31}"
    and "\<forall>i. cx_link (bx_inner bx i) = Up" and "\<forall>i. bx_pg bx i = Pg_Up"
    and "unique_by out_jti (outbox d)" and "\<forall>r \<in> set (outbox d). bx_now bx 0 < out_expires_at r"
  shows "\<exists>D' d'. flusher_tick (redis_backend R show_uuid) bx (g, D, d) = (0, D', d') \<and>
           length (outbox d') = length (outbox d) - FLUSH_BATCH_SIZE"
proof -
  let ?so = "sort_key out_created_at (outbox d)"
  let ?P = "\<lambda>r. out_jti r \<notin> fst ` set (sweep_rows bx d)"
  have live: "filter (\<lambda>r. \<not> out_expires_at r \<le> bx_now bx 0) (outbox d) = outbox d" using assms(6) by (simp add: not_le)
  have "distinct (map out_jti ?so)" using assms(5) unfolding unique_by_def
    by (metis distinct_map distinct_sort set_sort)
  then have "distinct (map out_jti (take FLUSH_BATCH_SIZE ?so @ drop FLUSH_BATCH_SIZE ?so))" by simp
  then have "filter ?P (drop FLUSH_BATCH_SIZE ?so) = drop FLUSH_BATCH_SIZE ?so"
    unfolding map_append distinct_append by (auto simp: filter_id_conv sweep_rows_def live image_image)
  moreover have "filter ?P (take FLUSH_BATCH_SIZE ?so) = []" by (auto simp: filter_empty_conv sweep_rows_def live image_image)
  ultimately have "filter ?P ?so = drop FLUSH_BATCH_SIZE ?so"
    using filter_append [of ?P "take FLUSH_BATCH_SIZE ?so" "drop FLUSH_BATCH_SIZE ?so"] by (simp only: append_take_drop_id append_Nil)
  moreover have "length (sweep_rest bx d) = length (filter ?P ?so)"
    unfolding sweep_rest_def live by (simp only: length_filter_sort)
  ultimately have "length (sweep_rest bx d) = length (outbox d) - FLUSH_BATCH_SIZE" by simp
  then show ?thesis using flusher_tick_up [OF assms(1-4), of show_uuid g D] by auto
qed

definition up_ctx :: bl_ctx where
  "up_ctx = \<lparr>bx_clk = (\<lambda>_. 9), bx_inner = (\<lambda>_. ctx_at 9), bx_pg = (\<lambda>_. Pg_Up), bx_now = (\<lambda>_. 9)\<rparr>"

theorem flush_drains_backlog_witness:
  "\<exists>D' d'. flush_pending (redis_backend store_server (\<lambda>u. show_nat (unat u))) up_ctx
             (nd_dur node_logged_out, nd_db node_logged_out) = (Inr 0, (D', d')) \<and>
     outbox d' = [] \<and> rb_denied store_view (\<lambda>u. show_nat (unat u)) 99 7 (inner D')"
proof -
  have "\<forall>r \<in> set (outbox (nd_db node_logged_out)). row_ok (\<lambda>ttl. ttl < 2 ^ 31) (\<lambda>_. 100) 5 r"
    by (simp add: node_logged_out_def row_ok_def secs_def)
  moreover have "ctx_between cx_srv cx_srv 5 9 up_ctx"
    by (simp add: ctx_between_def up_ctx_def)
  ultimately show ?thesis
    using flush_drains_backlog
            [OF store_contract show_unat_inj, of "nd_db node_logged_out" "\<lambda>_. 100" 5 9 up_ctx
                "nd_dur node_logged_out"]
    by (simp add: node_logged_out_def up_ctx_def FLUSH_BATCH_SIZE_def)
qed

theorem flusher_finishes_witness:
  "\<exists>gauge D' d'. flusher (redis_backend store_server (\<lambda>u. show_nat (unat u))) [up_ctx]
       (3, nd_dur node_logged_out, nd_db node_logged_out) = (gauge, D', d') \<and> outbox d' = []"
proof (rule flusher_finishes [OF store_contract])
  show "\<forall>r \<in> set (outbox (nd_db node_logged_out)). out_ttl_secs r \<in> {0..<2 ^ 31}"
    by (simp add: node_logged_out_def)
  show "\<forall>bx \<in> set [up_ctx]. \<forall>i. cx_link (bx_inner bx i) = Up \<and> bx_pg bx i = Pg_Up" by (simp add: up_ctx_def)
  show "length (outbox (nd_db node_logged_out)) \<le> length [up_ctx] * FLUSH_BATCH_SIZE"
    by (simp add: node_logged_out_def FLUSH_BATCH_SIZE_def)
qed

end
