(* ===== verification/Spec2Isabelle.thy ===== *)
theory Spec2Isabelle
  imports Admin Google_Provider Profiles Auth_Spec Net Rate_Limiter Durable_Blacklist Jwt Password User_Repo
begin

text \<open>
  A verification development for the home services back end.
\<close>

end
